theory Spec2Isabelle
  imports Main "HOL-Library.Word"
begin

unbundle bit_operations_syntax

section \<open>Data model of the block allocator\<close>

text \<open>
  The allocator lives in one C file; its structure declarations (\<^verbatim>\<open>sof/alloc.h\<close>) and
  the platform macros (\<^verbatim>\<open>platform/memory.h\<close>) are not among the sources.

  Modelled from the spec: the declarations of \<^verbatim>\<open>struct block_hdr\<close>,
  \<^verbatim>\<open>struct block_map\<close>, \<^verbatim>\<open>struct mm_info\<close>, \<^verbatim>\<open>struct mm_heap\<close> and
  \<^verbatim>\<open>struct mm\<close> are missing. The fields are the ones the C file reads and writes.
  Addresses, sizes, capability masks and the byte counters are unsigned 32-bit values
  (the code casts pointers to \<^verbatim>\<open>uint32_t\<close>); the per-map counters and the two header
  fields are unsigned 16-bit values. Arrays are lists; a pointer to a heap descriptor is a
  reference into the registry (\<open>heap_ref\<close>). Field names that clash with HOL constants
  carry a prefix (\<open>hdr_size\<close>, \<open>hdr_used\<close>, \<open>info_used\<close>, \<open>info_free\<close>,
  \<open>heap_size\<close>) and \<^verbatim>\<open>map\<close> is \<open>maps\<close>.
\<close>

type_synonym addr = "32 word"

record block_hdr =
  hdr_size :: "16 word"
  hdr_used :: "16 word"

record block_map =
  block_size :: "16 word"
  count :: "16 word"
  free_count :: "16 word"
  first_free :: "16 word"
  block :: "block_hdr list"
  base :: "32 word"

record mm_info =
  info_used :: "32 word"
  info_free :: "32 word"

record mm_heap =
  blocks :: "32 word"
  maps :: "block_map list"
  heap :: "32 word"
  heap_size :: "32 word"
  caps :: "32 word"
  info :: mm_info

record mm =
  system :: "mm_heap list"
  system_runtime :: "mm_heap list"
  runtime :: "mm_heap list"
  buffer :: "mm_heap list"
  heap_trace_updated :: "32 word"

text \<open>
  The lengths of the four lists are the array dimensions \<^verbatim>\<open>PLATFORM_CORE_COUNT\<close>
  (system and system-runtime heaps, indexed by core), \<^verbatim>\<open>PLATFORM_HEAP_RUNTIME\<close> and
  \<^verbatim>\<open>PLATFORM_HEAP_BUFFER\<close>.

  A call either returns or does not: \<open>Panic\<close> is \<^verbatim>\<open>panic(SOF_IPC_PANIC_MEM)\<close>, which
  never returns; \<open>Undefined\<close> is an access outside an array or a division by zero, for
  which C defines no behaviour.
\<close>

datatype fault = Panic | Undefined

datatype heap_ref = SysRuntime nat | Runtime nat | Buffer nat

fun heap_at :: "mm \<Rightarrow> heap_ref \<Rightarrow> mm_heap" where
  "heap_at mm (SysRuntime i) = system_runtime mm ! i"
| "heap_at mm (Runtime i) = runtime mm ! i"
| "heap_at mm (Buffer i) = buffer mm ! i"

fun heap_upd :: "mm \<Rightarrow> heap_ref \<Rightarrow> mm_heap \<Rightarrow> mm" where
  "heap_upd mm (SysRuntime i) h = mm\<lparr>system_runtime := (system_runtime mm)[i := h]\<rparr>"
| "heap_upd mm (Runtime i) h = mm\<lparr>runtime := (runtime mm)[i := h]\<rparr>"
| "heap_upd mm (Buffer i) h = mm\<lparr>buffer := (buffer mm)[i := h]\<rparr>"

text \<open>A reference is valid when its index lies inside its array.\<close>

fun valid_ref :: "mm \<Rightarrow> heap_ref \<Rightarrow> bool" where
  "valid_ref mm (SysRuntime i) = (i < length (system_runtime mm))"
| "valid_ref mm (Runtime i) = (i < length (runtime mm))"
| "valid_ref mm (Buffer i) = (i < length (buffer mm))"

text \<open>
  The platform macros the C file uses, taken as parameters: the cached/uncached address
  aliases, the data cache line size, and the zone encoding (\<^verbatim>\<open>RZONE_*\<close>).
\<close>

record platform =
  is_uncached :: "addr \<Rightarrow> bool"
  uncache_to_cache :: "addr \<Rightarrow> addr"
  cache_to_uncache :: "addr \<Rightarrow> addr"
  dcache_align :: "32 word"
  rzone_sys :: "32 word"
  rzone_sys_runtime :: "32 word"
  rzone_runtime :: "32 word"
  rzone_type_mask :: "32 word"
  rzone_flag_mask :: "32 word"
  rzone_flag_uncached :: "32 word"

text \<open>The machine: the registry \<^verbatim>\<open>memmap\<close> and the byte-addressed memory behind it.\<close>

record machine =
  memmap :: mm
  ram :: "addr \<Rightarrow> 8 word"

section \<open>Single-block and contiguous allocation\<close>

text \<open>
  \<^verbatim>\<open>alloc_block\<close>, the loop "find next free": the first index from \<open>i\<close> below \<open>n\<close>
  whose header is unused, if there is one.
\<close>

function next_free :: "block_hdr list \<Rightarrow> nat \<Rightarrow> nat \<Rightarrow> fault + nat option" where
  "next_free hs i n =
     (if i < n then
        (if i < length hs then
           (if hdr_used (hs ! i) = 0 then Inr (Some i) else next_free hs (Suc i) n)
         else Inl Undefined)
      else Inr None)"
  by pat_completeness auto
termination
  by (relation "measure (\<lambda>(hs, i, n). n - i)") auto

declare next_free.simps [simp del]

definition alloc_block :: "mm_heap \<Rightarrow> nat \<Rightarrow> fault + (addr \<times> mm_heap)" where
  "alloc_block h level =
     (if level < length (maps h) then
        (let m = maps h ! level;
             ff = unat (first_free m)
         in if ff < length (block m) then
              (let ptr = base m + ucast (first_free m) * ucast (block_size m);
                   hs = (block m)[ff := \<lparr>hdr_size = 1, hdr_used = 1\<rparr>];
                   nfo = \<lparr>info_used = info_used (info h) + ucast (block_size m),
                          info_free = info_free (info h) - ucast (block_size m)\<rparr>;
                   m1 = m\<lparr>free_count := free_count m - 1, block := hs\<rparr>
               in case next_free hs ff (unat (count m)) of
                    Inl e \<Rightarrow> Inl e
                  | Inr r \<Rightarrow>
                      (let m2 = (case r of None \<Rightarrow> m1
                                 | Some i \<Rightarrow> m1\<lparr>first_free := of_nat i\<rparr>)
                       in Inr (ptr, h\<lparr>maps := (maps h)[level := m2], info := nfo\<rparr>)))
            else Inl Undefined)
      else Inl Undefined)"

text \<open>
  \<^verbatim>\<open>alloc_cont_blocks\<close>, first loop: the number of unused headers from \<open>i\<close> below
  \<open>n\<close>, added to \<open>r\<close>.
\<close>

function count_remaining :: "block_hdr list \<Rightarrow> nat \<Rightarrow> nat \<Rightarrow> 32 word \<Rightarrow> fault + 32 word" where
  "count_remaining hs i n r =
     (if i < n then
        (if i < length hs then
           count_remaining hs (Suc i) n (if hdr_used (hs ! i) = 0 then r + 1 else r)
         else Inl Undefined)
      else Inr r)"
  by pat_completeness auto
termination
  by (relation "measure (\<lambda>(hs, i, n, r). n - i)") auto

declare count_remaining.simps [simp del]

text \<open>
  \<^verbatim>\<open>alloc_cont_blocks\<close>, last loop ("update each block"): it runs
  \<^verbatim>\<open>for (current = start; current < count; current++)\<close>, so its upper bound is the
  number of blocks requested, not \<^verbatim>\<open>start + count\<close>.
\<close>

function mark_used :: "block_hdr list \<Rightarrow> nat \<Rightarrow> nat \<Rightarrow> fault + block_hdr list" where
  "mark_used hs i n =
     (if i < n then
        (if i < length hs then
           mark_used (hs[i := (hs ! i)\<lparr>hdr_used := 1\<rparr>]) (Suc i) n
         else Inl Undefined)
      else Inr hs)"
  by pat_completeness auto
termination
  by (relation "measure (\<lambda>(hs, i, n). n - i)") auto

declare mark_used.simps [simp del]

definition alloc_cont_blocks :: "mm_heap \<Rightarrow> nat \<Rightarrow> 32 word \<Rightarrow> fault + (addr \<times> mm_heap)" where
  "alloc_cont_blocks h level bytes =
     (if level < length (maps h) then
        (let m = maps h ! level in
         if block_size m = 0 then Inl Undefined
         else
           (let cnt0 = bytes div ucast (block_size m);
                cnt = (if bytes mod ucast (block_size m) \<noteq> 0 then cnt0 + 1 else cnt0)
            in case count_remaining (block m) (unat (first_free m)) (unat (count m)) 0 of
                 Inl e \<Rightarrow> Inl e
               | Inr remaining \<Rightarrow>
                   if cnt > ucast (count m) \<or> remaining < cnt then Inr (0, h)
                   else
                     (let start = unat (first_free m) in
                      if start < length (block m) then
                        (let ptr = base m + ucast (first_free m) * ucast (block_size m);
                             hs = (block m)[start := (block m ! start)\<lparr>hdr_size := ucast cnt\<rparr>];
                             nfo = \<lparr>info_used = info_used (info h) + cnt * ucast (block_size m),
                                    info_free = info_free (info h) - cnt * ucast (block_size m)\<rparr>
                         in case mark_used hs start (unat cnt) of
                              Inl e \<Rightarrow> Inl e
                            | Inr hs' \<Rightarrow>
                                Inr (ptr,
                                     h\<lparr>maps := (maps h)[level :=
                                          m\<lparr>free_count := free_count m - ucast cnt,
                                            first_free := ucast (ucast (first_free m) + cnt),
                                            block := hs'\<rparr>],
                                       info := nfo\<rparr>))
                      else Inl Undefined)))
      else Inl Undefined)"

section \<open>Heap selection\<close>

text \<open>
  \<^verbatim>\<open>get_heap_from_ptr\<close> tests \<^verbatim>\<open>ptr >= heap->heap && ptr < heap->heap + heap->size\<close>
  three times; the sum is a 32-bit sum.
\<close>

definition in_heap :: "mm_heap \<Rightarrow> addr \<Rightarrow> bool" where
  "in_heap h ptr = (heap h \<le> ptr \<and> ptr < heap h + heap_size h)"

fun find_heap :: "mm_heap list \<Rightarrow> nat \<Rightarrow> addr \<Rightarrow> nat option" where
  "find_heap [] i ptr = None"
| "find_heap (h # hs) i ptr = (if in_heap h ptr then Some i else find_heap hs (Suc i) ptr)"

definition get_heap_from_ptr :: "mm \<Rightarrow> nat \<Rightarrow> addr \<Rightarrow> fault + heap_ref option" where
  "get_heap_from_ptr mm core ptr =
     (if core < length (system_runtime mm) then
        (if in_heap (system_runtime mm ! core) ptr then Inr (Some (SysRuntime core))
         else case find_heap (runtime mm) 0 ptr of
                Some i \<Rightarrow> Inr (Some (Runtime i))
              | None \<Rightarrow>
                  (case find_heap (buffer mm) 0 ptr of
                     Some i \<Rightarrow> Inr (Some (Buffer i))
                   | None \<Rightarrow> Inr None))
      else Inl Undefined)"

text \<open>
  \<^verbatim>\<open>get_heap_from_caps(heap, count, caps)\<close>: \<open>hs\<close> is the array the pointer
  \<^verbatim>\<open>heap\<close> points into and \<open>off\<close> its offset there; the result is the index in
  \<open>hs\<close> of the descriptor returned.
\<close>

function heap_from_caps_at :: "mm_heap list \<Rightarrow> nat \<Rightarrow> nat \<Rightarrow> nat \<Rightarrow> 32 word \<Rightarrow> fault + nat option" where
  "heap_from_caps_at hs off i n c =
     (if i < n then
        (if off + i < length hs then
           (if caps (hs ! (off + i)) AND c = c then Inr (Some (off + i))
            else heap_from_caps_at hs off (Suc i) n c)
         else Inl Undefined)
      else Inr None)"
  by pat_completeness auto
termination
  by (relation "measure (\<lambda>(hs, off, i, n, c). n - i)") auto

declare heap_from_caps_at.simps [simp del]

definition get_heap_from_caps :: "mm_heap list \<Rightarrow> nat \<Rightarrow> nat \<Rightarrow> 32 word \<Rightarrow> fault + nat option" where
  "get_heap_from_caps hs off n c = heap_from_caps_at hs off 0 n c"

definition zone_uncached :: "platform \<Rightarrow> 32 word \<Rightarrow> bool" where
  "zone_uncached pf zone = (zone AND rzone_flag_mask pf = rzone_flag_uncached pf)"

text \<open>\<^verbatim>\<open>get_ptr_from_heap\<close>: the loop over the maps, then the alias translation.\<close>

function get_ptr_loop :: "mm_heap \<Rightarrow> 32 word \<Rightarrow> nat \<Rightarrow> fault + (addr \<times> mm_heap)" where
  "get_ptr_loop h bytes i =
     (if i < unat (blocks h) then
        (if i < length (maps h) then
           (let m = maps h ! i in
            if ucast (block_size m) < bytes then get_ptr_loop h bytes (Suc i)
            else if free_count m = 0 then get_ptr_loop h bytes (Suc i)
            else alloc_block h i)
         else Inl Undefined)
      else Inr (0, h))"
  by pat_completeness auto
termination
  by (relation "measure (\<lambda>(h, bytes, i). unat (blocks h) - i)") auto

declare get_ptr_loop.simps [simp del]

definition get_ptr_from_heap :: "platform \<Rightarrow> mm_heap \<Rightarrow> 32 word \<Rightarrow> 32 word \<Rightarrow> fault + (addr \<times> mm_heap)" where
  "get_ptr_from_heap pf h zone bytes =
     (case get_ptr_loop h bytes 0 of
        Inl e \<Rightarrow> Inl e
      | Inr (ptr, h') \<Rightarrow>
          Inr (if ptr \<noteq> 0 \<and> zone_uncached pf zone then cache_to_uncache pf ptr else ptr, h'))"

section \<open>Freeing\<close>

text \<open>\<^verbatim>\<open>free_block\<close>, "find block that ptr belongs to".\<close>

function find_map :: "mm_heap \<Rightarrow> addr \<Rightarrow> nat \<Rightarrow> fault + nat option" where
  "find_map h ptr i =
     (if i < unat (blocks h) then
        (if i < length (maps h) then
           (let m = maps h ! i in
            if ptr < base m + ucast (block_size m) * ucast (count m) then Inr (Some i)
            else find_map h ptr (Suc i))
         else Inl Undefined)
      else Inr None)"
  by pat_completeness auto
termination
  by (relation "measure (\<lambda>(h, ptr, i). unat (blocks h) - i)") auto

declare find_map.simps [simp del]

text \<open>\<^verbatim>\<open>free_block\<close>, "free block header and continuous blocks": indices \<open>i\<close> up to \<open>n\<close>.\<close>

function free_loop :: "nat \<Rightarrow> nat \<Rightarrow> block_map \<Rightarrow> mm_info \<Rightarrow> fault + (block_map \<times> mm_info)" where
  "free_loop i n m nfo =
     (if i < n then
        (if i < length (block m) then
           free_loop (Suc i) n
             (m\<lparr>block := (block m)[i := \<lparr>hdr_size = 0, hdr_used = 0\<rparr>],
                free_count := free_count m + 1\<rparr>)
             \<lparr>info_used = info_used nfo - ucast (block_size m),
              info_free = info_free nfo + ucast (block_size m)\<rparr>
         else Inl Undefined)
      else Inr (m, nfo))"
  by pat_completeness auto
termination
  by (relation "measure (\<lambda>(i, n, m, nfo). n - i)") auto

declare free_loop.simps [simp del]

text \<open>
  \<^verbatim>\<open>free_block\<close> from "calculate block header" on, for the map at index \<open>i\<close> of
  heap \<open>h\<close>. The block index is an \<^verbatim>\<open>int\<close>: \<open>blk\<close> is its 32-bit pattern, and a
  negative index is outside the header array. The alignment test comes before the first
  read of the header.
\<close>

definition free_in_map :: "mm_heap \<Rightarrow> nat \<Rightarrow> addr \<Rightarrow> fault + mm_heap" where
  "free_in_map h i ptr =
     (let m = maps h ! i in
      if block_size m = 0 then Inl Undefined
      else
        (let blk = (ptr - base m) div ucast (block_size m) in
         if base m + ucast (block_size m) * blk \<noteq> ptr then Inl Panic
         else if sint blk < 0 \<or> length (block m) \<le> unat blk then Inl Undefined
         else
           (case free_loop (unat blk) (unat blk + unat (hdr_size (block m ! unat blk)))
                   m (info h) of
              Inl e \<Rightarrow> Inl e
            | Inr (m1, nfo) \<Rightarrow>
                (let m2 = (if blk < ucast (first_free m1)
                           then m1\<lparr>first_free := ucast blk\<rparr> else m1)
                 in Inr (h\<lparr>maps := (maps h)[i := m2], info := nfo\<rparr>)))))"

definition free_block :: "mm \<Rightarrow> nat \<Rightarrow> addr \<Rightarrow> fault + mm" where
  "free_block mm core ptr =
     (case get_heap_from_ptr mm core ptr of
        Inl e \<Rightarrow> Inl e
      | Inr None \<Rightarrow> Inr mm
      | Inr (Some r) \<Rightarrow>
          (case find_map (heap_at mm r) ptr 0 of
             Inl e \<Rightarrow> Inl e
           | Inr None \<Rightarrow> Inr mm
           | Inr (Some i) \<Rightarrow>
               (case free_in_map (heap_at mm r) i ptr of
                  Inl e \<Rightarrow> Inl e
                | Inr h' \<Rightarrow> Inr (heap_upd mm r h'))))"

definition rfree_unlocked :: "platform \<Rightarrow> mm \<Rightarrow> nat \<Rightarrow> addr \<Rightarrow> fault + mm" where
  "rfree_unlocked pf mm core ptr =
     (if ptr = 0 then Inr mm
      else
        (let p = (if is_uncached pf ptr then uncache_to_cache pf ptr else ptr) in
         if core < length (system mm) then
           (let cpu_heap = system mm ! core in
            if heap cpu_heap \<le> p \<and> p < heap cpu_heap + heap_size cpu_heap then Inl Panic
            else case free_block mm core p of
                   Inl e \<Rightarrow> Inl e
                 | Inr mm' \<Rightarrow> Inr (mm'\<lparr>heap_trace_updated := 1\<rparr>))
         else Inl Undefined))"

section \<open>Allocation entry points\<close>

text \<open>\<^verbatim>\<open>rmalloc_sys\<close>: the per-core system heap is a bump allocator without maps.\<close>

definition rmalloc_sys :: "platform \<Rightarrow> mm \<Rightarrow> 32 word \<Rightarrow> 32 word \<Rightarrow> nat \<Rightarrow> 32 word \<Rightarrow> fault + (addr \<times> mm)" where
  "rmalloc_sys pf mm zone c core bytes =
     (if core < length (system mm) then
        (let cpu_heap = system mm ! core in
         if caps cpu_heap AND c \<noteq> c then Inl Panic
         else if dcache_align pf = 0 then Inl Undefined
         else
           (let used0 = info_used (info cpu_heap);
                alignment = (if used0 mod dcache_align pf \<noteq> 0
                             then dcache_align pf - used0 mod dcache_align pf else 0)
            in if alignment + bytes > info_free (info cpu_heap) then Inl Panic
               else
                 (let used1 = used0 + alignment;
                      ptr = heap cpu_heap + used1;
                      nfo = \<lparr>info_used = used1 + bytes,
                             info_free = info_free (info cpu_heap) - (alignment + bytes)\<rparr>
                  in Inr (if zone_uncached pf zone then cache_to_uncache pf ptr else ptr,
                          mm\<lparr>system := (system mm)[core := cpu_heap\<lparr>info := nfo\<rparr>]\<rparr>))))
      else Inl Undefined)"

definition rmalloc_sys_runtime :: "platform \<Rightarrow> mm \<Rightarrow> 32 word \<Rightarrow> 32 word \<Rightarrow> nat \<Rightarrow> 32 word \<Rightarrow> fault + (addr \<times> mm)" where
  "rmalloc_sys_runtime pf mm zone c core bytes =
     (if core < length (system_runtime mm) then
        (let cpu_heap = system_runtime mm ! core in
         if caps cpu_heap AND c \<noteq> c then Inl Panic
         else case get_ptr_from_heap pf cpu_heap zone bytes of
                Inl e \<Rightarrow> Inl e
              | Inr (ptr, h') \<Rightarrow> Inr (ptr, heap_upd mm (SysRuntime core) h'))
      else Inl Undefined)"

definition rmalloc_runtime :: "platform \<Rightarrow> mm \<Rightarrow> 32 word \<Rightarrow> 32 word \<Rightarrow> 32 word \<Rightarrow> fault + (addr \<times> mm)" where
  "rmalloc_runtime pf mm zone c bytes =
     (case get_heap_from_caps (runtime mm) 0 (length (runtime mm)) c of
        Inl e \<Rightarrow> Inl e
      | Inr (Some i) \<Rightarrow>
          (case get_ptr_from_heap pf (runtime mm ! i) zone bytes of
             Inl e \<Rightarrow> Inl e
           | Inr (ptr, h') \<Rightarrow> Inr (ptr, heap_upd mm (Runtime i) h'))
      | Inr None \<Rightarrow>
          (case get_heap_from_caps (buffer mm) 0 (length (buffer mm)) c of
             Inl e \<Rightarrow> Inl e
           | Inr (Some i) \<Rightarrow>
               (case get_ptr_from_heap pf (buffer mm ! i) zone bytes of
                  Inl e \<Rightarrow> Inl e
                | Inr (ptr, h') \<Rightarrow> Inr (ptr, heap_upd mm (Buffer i) h'))
           | Inr None \<Rightarrow> Inr (0, mm)))"

text \<open>
  \<^verbatim>\<open>_malloc_unlocked\<close> (the leading underscore of the C names is dropped). \<open>core\<close> is
  \<^verbatim>\<open>cpu_get_id()\<close>.
\<close>

definition malloc_unlocked :: "platform \<Rightarrow> mm \<Rightarrow> nat \<Rightarrow> 32 word \<Rightarrow> 32 word \<Rightarrow> 32 word \<Rightarrow> fault + (addr \<times> mm)" where
  "malloc_unlocked pf mm core zone c bytes =
     (case (if zone AND rzone_type_mask pf = rzone_sys pf
              then rmalloc_sys pf mm zone c core bytes
            else if zone AND rzone_type_mask pf = rzone_sys_runtime pf
              then rmalloc_sys_runtime pf mm zone c core bytes
            else if zone AND rzone_type_mask pf = rzone_runtime pf
              then rmalloc_runtime pf mm zone c bytes
            else Inl Panic) of
        Inl e \<Rightarrow> Inl e
      | Inr (ptr, mm') \<Rightarrow> Inr (ptr, mm'\<lparr>heap_trace_updated := 1\<rparr>))"

text \<open>
  Memory writes. \<^verbatim>\<open>bzero\<close> clears \<open>n\<close> bytes from \<open>p\<close>.

  \<^verbatim>\<open>arch_memcpy_s\<close> (\<^verbatim>\<open>arch/string.h\<close>) returns \<^verbatim>\<open>-EINVAL\<close>, here \<open>None\<close>, without
  writing when a pointer is null, when one of the two regions ends inside the other or
  at one of its bounds, or when the source is longer than the destination; otherwise it
  copies \<open>src_size\<close> bytes and returns 0. The sums are 32-bit sums.
\<close>

definition bzero :: "(addr \<Rightarrow> 8 word) \<Rightarrow> addr \<Rightarrow> 32 word \<Rightarrow> (addr \<Rightarrow> 8 word)" where
  "bzero r p n = (\<lambda>a. if a - p < n then 0 else r a)"

definition arch_memcpy_s :: "(addr \<Rightarrow> 8 word) \<Rightarrow> addr \<Rightarrow> 32 word \<Rightarrow> addr \<Rightarrow> 32 word \<Rightarrow> (addr \<Rightarrow> 8 word) option" where
  "arch_memcpy_s r dest dest_size src src_size =
     (if dest = 0 \<or> src = 0 then None
      else if (dest + dest_size \<ge> src \<and> dest + dest_size \<le> src + src_size)
            \<or> (src + src_size \<ge> dest \<and> src + src_size \<le> dest + dest_size) then None
      else if src_size > dest_size then None
      else Some (\<lambda>a. if a - dest < src_size then r (src + (a - dest)) else r a))"

text \<open>
  Modelled from the spec: \<^verbatim>\<open>arch/string.h\<close> declares \<^verbatim>\<open>memcpy_s\<close> and the sources do
  not hold its body; it is taken to be the call of \<^verbatim>\<open>arch_memcpy_s\<close> with the same
  arguments.
\<close>

definition memcpy_s :: "(addr \<Rightarrow> 8 word) \<Rightarrow> addr \<Rightarrow> 32 word \<Rightarrow> addr \<Rightarrow> 32 word \<Rightarrow> (addr \<Rightarrow> 8 word) option" where
  "memcpy_s r dest dest_size src src_size = arch_memcpy_s r dest dest_size src src_size"

text \<open>
  The public entry points take the global lock around their body; the lock is released
  on every return, so it is not part of the state here.
\<close>

definition malloc :: "platform \<Rightarrow> machine \<Rightarrow> nat \<Rightarrow> 32 word \<Rightarrow> 32 word \<Rightarrow> 32 word \<Rightarrow> fault + (addr \<times> machine)" where
  "malloc pf st core zone c bytes =
     (case malloc_unlocked pf (memmap st) core zone c bytes of
        Inl e \<Rightarrow> Inl e
      | Inr (ptr, mm') \<Rightarrow> Inr (ptr, st\<lparr>memmap := mm'\<rparr>))"

definition zalloc :: "platform \<Rightarrow> machine \<Rightarrow> nat \<Rightarrow> 32 word \<Rightarrow> 32 word \<Rightarrow> 32 word \<Rightarrow> fault + (addr \<times> machine)" where
  "zalloc pf st core zone c bytes =
     (case malloc pf st core zone c bytes of
        Inl e \<Rightarrow> Inl e
      | Inr (ptr, st') \<Rightarrow>
          Inr (ptr, if ptr \<noteq> 0 then st'\<lparr>ram := bzero (ram st') ptr bytes\<rparr> else st'))"

definition rzalloc_core_sys :: "platform \<Rightarrow> machine \<Rightarrow> nat \<Rightarrow> 32 word \<Rightarrow> fault + (addr \<times> machine)" where
  "rzalloc_core_sys pf st core bytes =
     (case rmalloc_sys pf (memmap st) (rzone_sys pf) 0 core bytes of
        Inl e \<Rightarrow> Inl e
      | Inr (ptr, mm') \<Rightarrow>
          Inr (ptr, \<lparr>memmap = mm',
                     ram = (if ptr \<noteq> 0 then bzero (ram st) ptr bytes else ram st)\<rparr>))"

section \<open>Buffer allocation\<close>

text \<open>\<^verbatim>\<open>alloc_heap_buffer\<close>, "will request fit in single block".\<close>

function single_block_loop :: "mm_heap \<Rightarrow> 32 word \<Rightarrow> nat \<Rightarrow> fault + (addr \<times> mm_heap)" where
  "single_block_loop h bytes i =
     (if i < unat (blocks h) then
        (if i < length (maps h) then
           (let m = maps h ! i in
            if ucast (block_size m) \<ge> bytes \<and> free_count m \<noteq> 0 then alloc_block h i
            else single_block_loop h bytes (Suc i))
         else Inl Undefined)
      else Inr (0, h))"
  by pat_completeness auto
termination
  by (relation "measure (\<lambda>(h, bytes, i). unat (blocks h) - i)") auto

declare single_block_loop.simps [simp del]

text \<open>
  \<^verbatim>\<open>alloc_heap_buffer\<close>, "request spans > 1 block": \<open>j\<close> is one more than the loop
  index, which runs from \<^verbatim>\<open>heap->blocks - 1\<close> down to 0.
\<close>

fun cont_blocks_loop :: "mm_heap \<Rightarrow> 32 word \<Rightarrow> nat \<Rightarrow> fault + (addr \<times> mm_heap)" where
  "cont_blocks_loop h bytes 0 = Inr (0, h)"
| "cont_blocks_loop h bytes (Suc i) =
     (if heap_size h \<ge> bytes then
        (if i < length (maps h) then
           (if ucast (block_size (maps h ! i)) < bytes then
              (case alloc_cont_blocks h i bytes of
                 Inl e \<Rightarrow> Inl e
               | Inr (ptr, h') \<Rightarrow>
                   if ptr \<noteq> 0 then Inr (ptr, h') else cont_blocks_loop h' bytes i)
            else cont_blocks_loop h bytes i)
         else Inl Undefined)
      else cont_blocks_loop h bytes i)"

definition alloc_heap_buffer :: "platform \<Rightarrow> mm_heap \<Rightarrow> 32 word \<Rightarrow> 32 word \<Rightarrow> fault + (addr \<times> mm_heap)" where
  "alloc_heap_buffer pf h zone bytes =
     (case single_block_loop h bytes 0 of
        Inl e \<Rightarrow> Inl e
      | Inr (ptr, h1) \<Rightarrow>
          (case (if ptr = 0
                 then cont_blocks_loop h1 bytes
                        (if sint (blocks h1 - 1) < 0 then 0 else Suc (unat (blocks h1 - 1)))
                 else Inr (ptr, h1)) of
             Inl e \<Rightarrow> Inl e
           | Inr (ptr2, h2) \<Rightarrow>
               Inr (if ptr2 \<noteq> 0 \<and> zone_uncached pf zone then cache_to_uncache pf ptr2 else ptr2,
                    h2)))"

text \<open>
  \<^verbatim>\<open>_balloc_unlocked\<close>: the loop keeps \<^verbatim>\<open>heap = memmap.buffer + i\<close> and
  \<^verbatim>\<open>n = PLATFORM_HEAP_BUFFER - i\<close>, and continues behind the heap it has just tried.
\<close>

function balloc_loop :: "platform \<Rightarrow> mm \<Rightarrow> 32 word \<Rightarrow> 32 word \<Rightarrow> 32 word \<Rightarrow> nat \<Rightarrow> fault + (addr \<times> mm)" where
  "balloc_loop pf mm zone c bytes i =
     (if i < length (buffer mm) then
        (case get_heap_from_caps (buffer mm) i (length (buffer mm) - i) c of
           Inl e \<Rightarrow> Inl e
         | Inr None \<Rightarrow> Inr (0, mm)
         | Inr (Some k) \<Rightarrow>
             (case alloc_heap_buffer pf (buffer mm ! k) zone bytes of
                Inl e \<Rightarrow> Inl e
              | Inr (ptr, h') \<Rightarrow>
                  if ptr \<noteq> 0 then Inr (ptr, heap_upd mm (Buffer k) h')
                  else balloc_loop pf (heap_upd mm (Buffer k) h') zone c bytes (Suc k)))
      else Inr (0, mm))"
  by pat_completeness auto
termination
proof (relation "measure (\<lambda>(pf, mm, zone, c, bytes, i). length (buffer mm) - i)")
  show "wf (measure (\<lambda>(pf, mm, zone, c, bytes, i). length (buffer mm) - i))"
    by simp
next
  fix pf :: platform and mm :: mm and zone c bytes :: "32 word" and i k :: nat
    and x :: "nat option" and y :: "addr \<times> mm_heap" and ptr :: addr and h' :: mm_heap
  assume "i < length (buffer mm)"
    and "get_heap_from_caps (buffer mm) i (length (buffer mm) - i) c = Inr x"
    and "x = Some k"
  then have found: "heap_from_caps_at (buffer mm) i 0 (length (buffer mm) - i) c = Inr (Some k)"
    by (simp add: get_heap_from_caps_def)
  have "heap_from_caps_at hs off j n c = Inr (Some k) \<Longrightarrow> off + j \<le> k \<and> k < length hs"
    for hs off j n
  proof (induction hs off j n c rule: heap_from_caps_at.induct)
    case (1 hs off j n c)
    from "1.prems" show ?case
      by (subst (asm) heap_from_caps_at.simps) (auto split: if_splits dest: "1.IH")
  qed
  from this [OF found] have "i \<le> k \<and> k < length (buffer mm)"
    by simp
  then show "((pf, heap_upd mm (Buffer k) h', zone, c, bytes, Suc k), (pf, mm, zone, c, bytes, i))
      \<in> measure (\<lambda>(pf, mm, zone, c, bytes, i). length (buffer mm) - i)"
    by auto
qed

declare balloc_loop.simps [simp del]

definition balloc_unlocked :: "platform \<Rightarrow> mm \<Rightarrow> 32 word \<Rightarrow> 32 word \<Rightarrow> 32 word \<Rightarrow> fault + (addr \<times> mm)" where
  "balloc_unlocked pf mm zone c bytes = balloc_loop pf mm zone c bytes 0"

definition balloc :: "platform \<Rightarrow> machine \<Rightarrow> 32 word \<Rightarrow> 32 word \<Rightarrow> 32 word \<Rightarrow> fault + (addr \<times> machine)" where
  "balloc pf st zone c bytes =
     (case balloc_unlocked pf (memmap st) zone c bytes of
        Inl e \<Rightarrow> Inl e
      | Inr (ptr, mm') \<Rightarrow> Inr (ptr, st\<lparr>memmap := mm'\<rparr>))"

section \<open>Free and reallocate\<close>

definition rfree :: "platform \<Rightarrow> machine \<Rightarrow> nat \<Rightarrow> addr \<Rightarrow> fault + machine" where
  "rfree pf st core ptr =
     (case rfree_unlocked pf (memmap st) core ptr of
        Inl e \<Rightarrow> Inl e
      | Inr mm' \<Rightarrow> Inr (st\<lparr>memmap := mm'\<rparr>))"

text \<open>
  \<^verbatim>\<open>_realloc\<close> and \<^verbatim>\<open>_brealloc\<close> differ in the allocation they call; \<open>realloc_with\<close>
  is their common body, given the result of that call. Both ignore the value
  \<^verbatim>\<open>memcpy_s\<close> returns.
\<close>

definition realloc_with :: "platform \<Rightarrow> machine \<Rightarrow> nat \<Rightarrow> addr \<Rightarrow> 32 word \<Rightarrow> fault + (addr \<times> mm) \<Rightarrow> fault + (addr \<times> machine)" where
  "realloc_with pf st core ptr bytes res =
     (case res of
        Inl e \<Rightarrow> Inl e
      | Inr (new_ptr, mm1) \<Rightarrow>
          (let ram1 = (if new_ptr \<noteq> 0 \<and> ptr \<noteq> 0
                       then (case memcpy_s (ram st) new_ptr bytes ptr bytes of
                               None \<Rightarrow> ram st
                             | Some ram' \<Rightarrow> ram')
                       else ram st)
           in if new_ptr \<noteq> 0 then
                (case rfree_unlocked pf mm1 core ptr of
                   Inl e \<Rightarrow> Inl e
                 | Inr mm2 \<Rightarrow> Inr (new_ptr, \<lparr>memmap = mm2, ram = ram1\<rparr>))
              else Inr (new_ptr, \<lparr>memmap = mm1, ram = ram1\<rparr>)))"

definition realloc :: "platform \<Rightarrow> machine \<Rightarrow> nat \<Rightarrow> addr \<Rightarrow> 32 word \<Rightarrow> 32 word \<Rightarrow> 32 word \<Rightarrow> fault + (addr \<times> machine)" where
  "realloc pf st core ptr zone c bytes =
     (if bytes = 0 then Inr (0, st)
      else realloc_with pf st core ptr bytes (malloc_unlocked pf (memmap st) core zone c bytes))"

definition brealloc :: "platform \<Rightarrow> machine \<Rightarrow> nat \<Rightarrow> addr \<Rightarrow> 32 word \<Rightarrow> 32 word \<Rightarrow> 32 word \<Rightarrow> fault + (addr \<times> machine)" where
  "brealloc pf st core ptr zone c bytes =
     (if bytes = 0 then Inr (0, st)
      else realloc_with pf st core ptr bytes (balloc_unlocked pf (memmap st) zone c bytes))"

section \<open>A two-core platform with one heap of four 16-byte blocks per class\<close>

text \<open>
  The states the scenarios start from. The uncached alias of an address has bit 29 set.
  Each core has a system heap of 256 bytes and a system-runtime heap of four 16-byte
  blocks; there is one runtime heap at \<open>0x2000\<close> and one buffer heap at \<open>0x3000\<close>, each
  with one map of four 16-byte blocks, all free.
\<close>

definition pf0 :: platform where
  "pf0 = \<lparr>is_uncached = (\<lambda>a. a AND 0x20000000 \<noteq> 0),
          uncache_to_cache = (\<lambda>a. a AND 0xDFFFFFFF),
          cache_to_uncache = (\<lambda>a. a OR 0x20000000),
          dcache_align = 64,
          rzone_sys = 1, rzone_sys_runtime = 8, rzone_runtime = 2,
          rzone_type_mask = 0xFFFF, rzone_flag_mask = 0xFFFF0000,
          rzone_flag_uncached = 0x10000\<rparr>"

definition free_hdr :: block_hdr where
  "free_hdr = \<lparr>hdr_size = 0, hdr_used = 0\<rparr>"

definition map16x4 :: "addr \<Rightarrow> block_map" where
  "map16x4 b = \<lparr>block_size = 16, count = 4, free_count = 4, first_free = 0,
                block = [free_hdr, free_hdr, free_hdr, free_hdr], base = b\<rparr>"

definition heap16x4 :: "addr \<Rightarrow> mm_heap" where
  "heap16x4 b = \<lparr>blocks = 1, maps = [map16x4 b], heap = b, heap_size = 64, caps = 3,
                 info = \<lparr>info_used = 0, info_free = 64\<rparr>\<rparr>"

definition sys_heap :: "addr \<Rightarrow> mm_heap" where
  "sys_heap b = \<lparr>blocks = 0, maps = [], heap = b, heap_size = 256, caps = 3,
                 info = \<lparr>info_used = 0, info_free = 256\<rparr>\<rparr>"

definition mm0 :: mm where
  "mm0 = \<lparr>system = [sys_heap 0x1000, sys_heap 0x1100],
          system_runtime = [heap16x4 0x1800, heap16x4 0x1900],
          runtime = [heap16x4 0x2000],
          buffer = [heap16x4 0x3000],
          heap_trace_updated = 0\<rparr>"

text \<open>
  The buffer heap after a single block, and after a span of three blocks, has been taken
  from the boot state.
\<close>

definition heap_one_taken :: mm_heap where
  "heap_one_taken =
     (heap16x4 0x3000)\<lparr>maps := [(map16x4 0x3000)\<lparr>free_count := 3, first_free := 1,
          block := [\<lparr>hdr_size = 1, hdr_used = 1\<rparr>, free_hdr, free_hdr, free_hdr]\<rparr>],
        info := \<lparr>info_used = 16, info_free = 48\<rparr>\<rparr>"

definition heap_span_taken :: mm_heap where
  "heap_span_taken =
     (heap16x4 0x3000)\<lparr>maps := [(map16x4 0x3000)\<lparr>free_count := 1, first_free := 3,
          block := [\<lparr>hdr_size = 3, hdr_used = 1\<rparr>, \<lparr>hdr_size = 0, hdr_used = 1\<rparr>,
                    \<lparr>hdr_size = 0, hdr_used = 1\<rparr>, free_hdr]\<rparr>],
        info := \<lparr>info_used = 48, info_free = 16\<rparr>\<rparr>"

text \<open>The buffer heap after two single blocks have been taken.\<close>

definition heap_two_taken :: mm_heap where
  "heap_two_taken =
     (heap16x4 0x3000)\<lparr>maps := [(map16x4 0x3000)\<lparr>free_count := 2, first_free := 2,
          block := [\<lparr>hdr_size = 1, hdr_used = 1\<rparr>, \<lparr>hdr_size = 1, hdr_used = 1\<rparr>,
                    free_hdr, free_hdr]\<rparr>],
        info := \<lparr>info_used = 32, info_free = 32\<rparr>\<rparr>"

text \<open>The registry in which the first block of the buffer heap is taken.\<close>

definition mm_taken :: mm where
  "mm_taken = heap_upd mm0 (Buffer 0) heap_one_taken"

text \<open>
  A registry whose heaps differ in capabilities: the runtime heap and the first buffer
  heap have mask 1, the second buffer heap has mask 6.
\<close>

definition mmc :: mm where
  "mmc = mm0\<lparr>runtime := [(heap16x4 0x2000)\<lparr>caps := 1\<rparr>],
             buffer := [(heap16x4 0x3000)\<lparr>caps := 1\<rparr>, (heap16x4 0x3040)\<lparr>caps := 6\<rparr>]\<rparr>"







text \<open>
  Running a list of requests on the registry, as core 0: \<open>Balloc n\<close> is
  \<^verbatim>\<open>_balloc(0, 0, n)\<close>, \<open>Malloc n\<close> is \<^verbatim>\<open>_malloc(RZONE_RUNTIME, 0, n)\<close>, \<open>Free p\<close> is
  \<^verbatim>\<open>rfree(p)\<close>. The result is the final registry and the pointers returned, latest first.
\<close>

datatype request = Balloc "32 word" | Malloc "32 word" | Free addr

fun run :: "request list \<Rightarrow> mm \<times> addr list \<Rightarrow> fault + (mm \<times> addr list)" where
  "run [] s = Inr s"
| "run (Balloc n # rs) (mm, ps) =
     (case balloc_unlocked pf0 mm 0 0 n of
        Inl e \<Rightarrow> Inl e
      | Inr (p, mm') \<Rightarrow> run rs (mm', p # ps))"
| "run (Malloc n # rs) (mm, ps) =
     (case malloc_unlocked pf0 mm 0 (rzone_runtime pf0) 0 n of
        Inl e \<Rightarrow> Inl e
      | Inr (p, mm') \<Rightarrow> run rs (mm', p # ps))"
| "run (Free p # rs) (mm, ps) =
     (case rfree_unlocked pf0 mm 0 p of
        Inl e \<Rightarrow> Inl e
      | Inr mm' \<Rightarrow> run rs (mm', ps))"

section \<open>Bookkeeping invariants, as the specification words them\<close>

text \<open>
  The capacity invariant: for every heap \<open>info.used + info.free = size\<close>, and for every
  map \<open>free_count = count - (number of headers with used = 1)\<close>.
\<close>

definition used_headers :: "block_map \<Rightarrow> nat" where
  "used_headers m = length (filter (\<lambda>x. hdr_used x = 1) (block m))"

definition map_capacity_ok :: "block_map \<Rightarrow> bool" where
  "map_capacity_ok m = (uint (free_count m) = uint (count m) - int (used_headers m))"

definition heap_capacity_ok :: "mm_heap \<Rightarrow> bool" where
  "heap_capacity_ok h =
     (info_used (info h) + info_free (info h) = heap_size h \<and> list_all map_capacity_ok (maps h))"

definition capacity_invariant :: "mm \<Rightarrow> bool" where
  "capacity_invariant mm =
     list_all heap_capacity_ok (system mm @ system_runtime mm @ runtime mm @ buffer mm)"


text \<open>
  Null is not the address of a block: no slot of any map of a block-managed heap sits
  at address 0, and the uncached alias of a non-null address is non-null. Null then
  means that nothing was allocated.
\<close>

definition map_nonnull :: "block_map \<Rightarrow> bool" where
  "map_nonnull m =
     list_all (\<lambda>k. base m + of_nat k * ucast (block_size m) \<noteq> 0) [0..<length (block m)]"

definition heap_nonnull :: "mm_heap \<Rightarrow> bool" where
  "heap_nonnull h = list_all map_nonnull (maps h)"

definition nonnull_blocks :: "mm \<Rightarrow> bool" where
  "nonnull_blocks mm = list_all heap_nonnull (system_runtime mm @ runtime mm @ buffer mm)"

definition alias_nonnull :: "platform \<Rightarrow> bool" where
  "alias_nonnull pf = (\<forall>p. p \<noteq> 0 \<longrightarrow> cache_to_uncache pf p \<noteq> 0)"










text \<open>
  Selection by capability, in the specification's words: \<open>first_match hs c i\<close> says that
  \<open>i\<close> is the first descriptor of \<open>hs\<close> whose mask contains \<open>c\<close>, \<open>no_match hs c\<close> that
  none does.
\<close>

definition first_match :: "mm_heap list \<Rightarrow> 32 word \<Rightarrow> nat \<Rightarrow> bool" where
  "first_match hs c i =
     (i < length hs \<and> caps (hs ! i) AND c = c \<and> (\<forall>j<i. caps (hs ! j) AND c \<noteq> c))"

definition no_match :: "mm_heap list \<Rightarrow> 32 word \<Rightarrow> bool" where
  "no_match hs c = (\<forall>j<length hs. caps (hs ! j) AND c \<noteq> c)"

section \<open>Arithmetic of slot addresses\<close>

text \<open>
  A slot address is \<open>base + first_free * block_size\<close>, computed in 32 bits from two
  16-bit fields: the product cannot wrap, so the division in \<^verbatim>\<open>free_block\<close> recovers
  the slot index.
\<close>

lemma unat16_lt: "unat (w :: 16 word) < 65536"
  using unsigned_less [of w, where 'a = nat] by simp

lemma unat_ucast16: "unat (ucast (w :: 16 word) :: 32 word) = unat w"
proof -
  have "unat w < 2 ^ 32"
    using unat16_lt [of w] by simp
  then show ?thesis
    by (simp add: unsigned_ucast_eq take_bit_nat_eq_self)
qed

lemma ucast16_eq_0: "(ucast (w :: 16 word) :: 32 word) = 0 \<longleftrightarrow> w = 0"
proof -
  have "(ucast w :: 32 word) = 0 \<longleftrightarrow> unat (ucast w :: 32 word) = 0"
    by (simp add: unsigned_eq_0_iff)
  also have "\<dots> \<longleftrightarrow> unat w = 0"
    by (simp only: unat_ucast16)
  also have "\<dots> \<longleftrightarrow> w = 0"
    by (simp add: unsigned_eq_0_iff)
  finally show ?thesis .
qed


lemma slot_index_recovered:
  fixes ff bs :: "16 word"
  assumes "bs \<noteq> 0"
  shows "((ucast ff :: 32 word) * ucast bs) div ucast bs = ucast ff"
proof (rule word_div_mult)
  show "0 < (ucast bs :: 32 word)"
    using assms by (simp add: word_greater_zero_iff ucast16_eq_0)
  have "unat ff * unat bs < 65536 * 65536"
    using unat16_lt [of ff] unat16_lt [of bs] by (intro mult_strict_mono) simp_all
  then show "unat (ucast ff :: 32 word) * unat (ucast bs :: 32 word) < 2 ^ LENGTH(32)"
    by (simp add: unat_ucast16)
qed

lemma sint_small:
  fixes w :: "32 word"
  assumes "unat w < 2 ^ 31"
  shows "sint w = int (unat w)"
proof -
  have eq: "uint w = int (unat w)"
    by (rule uint_nat)
  from assms have "int (unat w) < int (2 ^ 31)"
    by (simp only: of_nat_less_iff)
  then have lt: "int (unat w) < 2 ^ 31"
    by simp
  have ge: "- (2 ^ 31) \<le> int (unat w)"
    by (rule order_trans [of _ 0]) simp_all
  from lt ge have "signed_take_bit 31 (int (unat w)) = int (unat w)"
    by (simp add: signed_take_bit_int_eq_self)
  then show ?thesis
    by (simp only: sint_uint eq) simp
qed

lemma ucast_ucast16: "(ucast (ucast (w :: 16 word) :: 32 word) :: 16 word) = w"
proof (rule word_unat_eq_iff [THEN iffD2])
  have "unat w < 2 ^ 16"
    using unat16_lt [of w] by simp
  then show "unat (ucast (ucast w :: 32 word) :: 16 word) = unat w"
    by (simp add: unsigned_ucast_eq unat_ucast16 take_bit_nat_eq_self take_bit_word_eq_self)
qed

lemma ucast16_less: "(ucast (a :: 16 word) :: 32 word) < ucast (b :: 16 word) \<longleftrightarrow> a < b"
  by (simp add: word_less_nat_alt unat_ucast16)

lemma ucast16_le: "(ucast (a :: 16 word) :: 32 word) \<le> ucast (b :: 16 word) \<longleftrightarrow> a \<le> b"
  by (simp add: word_le_nat_alt unat_ucast16)

lemma of_nat_unat16: "(of_nat (unat (w :: 16 word)) :: 32 word) = ucast w"
  by simp

lemma of_nat_unat16': "(of_nat (unat (w :: 16 word)) :: 16 word) = w"
  by simp

section \<open>Heap selection by capability\<close>

lemma heap_from_caps_at_Some:
  "heap_from_caps_at hs off i n c = Inr (Some k) \<Longrightarrow>
     off + i \<le> k \<and> k < off + n \<and> k < length hs \<and> caps (hs ! k) AND c = c \<and>
     (\<forall>j. off + i \<le> j \<and> j < k \<longrightarrow> caps (hs ! j) AND c \<noteq> c)"
proof (induction hs off i n c rule: heap_from_caps_at.induct)
  case (1 hs off i n c)
  show ?case
  proof (cases "i < n \<and> off + i < length hs \<and> caps (hs ! (off + i)) AND c \<noteq> c")
    case True
    with "1.prems" have rec: "heap_from_caps_at hs off (Suc i) n c = Inr (Some k)"
      by (subst (asm) heap_from_caps_at.simps) simp
    from "1.IH" [OF _ _ _ rec] True
    have ih: "off + Suc i \<le> k \<and> k < off + n \<and> k < length hs \<and> caps (hs ! k) AND c = c \<and>
        (\<forall>j. off + Suc i \<le> j \<and> j < k \<longrightarrow> caps (hs ! j) AND c \<noteq> c)"
      by simp
    have "caps (hs ! j) AND c \<noteq> c" if "off + i \<le> j" "j < k" for j
    proof (cases "j = off + i")
      case True
      with \<open>i < n \<and> off + i < length hs \<and> caps (hs ! (off + i)) AND c \<noteq> c\<close>
      show ?thesis by simp
    next
      case False
      with that ih show ?thesis by simp
    qed
    with ih show ?thesis by simp
  next
    case False
    with "1.prems" show ?thesis
      by (subst (asm) heap_from_caps_at.simps) (auto split: if_splits)
  qed
qed

lemma heap_from_caps_at_None:
  "heap_from_caps_at hs off i n c = Inr None \<Longrightarrow>
     (\<forall>j. off + i \<le> j \<and> j < off + n \<longrightarrow> caps (hs ! j) AND c \<noteq> c)"
proof (induction hs off i n c rule: heap_from_caps_at.induct)
  case (1 hs off i n c)
  show ?case
  proof (cases "i < n")
    case True
    with "1.prems" have ok: "off + i < length hs" "caps (hs ! (off + i)) AND c \<noteq> c"
      and rec: "heap_from_caps_at hs off (Suc i) n c = Inr None"
      by (subst (asm) heap_from_caps_at.simps, simp split: if_splits)+
    from "1.IH" [OF True ok rec]
    have ih: "\<forall>j. off + Suc i \<le> j \<and> j < off + n \<longrightarrow> caps (hs ! j) AND c \<noteq> c" .
    show ?thesis
    proof (intro allI impI)
      fix j assume j: "off + i \<le> j \<and> j < off + n"
      show "caps (hs ! j) AND c \<noteq> c"
      proof (cases "j = off + i")
        case True with ok show ?thesis by simp
      next
        case False with j ih show ?thesis by simp
      qed
    qed
  next
    case False
    then show ?thesis by auto
  qed
qed

lemma heap_from_caps_at_no_fault:
  "off + n \<le> length hs \<Longrightarrow> heap_from_caps_at hs off i n c \<noteq> Inl e"
proof (induction hs off i n c rule: heap_from_caps_at.induct)
  case (1 hs off i n c)
  then show ?case
    by (subst heap_from_caps_at.simps) auto
qed

lemma get_heap_from_caps_first_match:
  assumes fm: "first_match hs c i"
  shows "get_heap_from_caps hs 0 (length hs) c = Inr (Some i)"
proof -
  obtain res where res: "get_heap_from_caps hs 0 (length hs) c = Inr res"
    using heap_from_caps_at_no_fault [of 0 "length hs" hs 0 c]
    by (cases "get_heap_from_caps hs 0 (length hs) c") (auto simp: get_heap_from_caps_def)
  show ?thesis
  proof (cases res)
    case None
    with res heap_from_caps_at_None [of hs 0 0 "length hs" c] fm show ?thesis
      by (auto simp: get_heap_from_caps_def first_match_def)
  next
    case (Some k)
    with res heap_from_caps_at_Some [of hs 0 0 "length hs" c k]
    have k: "k < length hs" "caps (hs ! k) AND c = c" "\<forall>j<k. caps (hs ! j) AND c \<noteq> c"
      by (auto simp: get_heap_from_caps_def)
    from k fm have "k = i"
      unfolding first_match_def by (metis linorder_neqE_nat)
    with res Some show ?thesis by simp
  qed
qed

lemma get_heap_from_caps_no_match:
  assumes nm: "no_match hs c"
  shows "get_heap_from_caps hs 0 (length hs) c = Inr None"
proof -
  obtain res where res: "get_heap_from_caps hs 0 (length hs) c = Inr res"
    using heap_from_caps_at_no_fault [of 0 "length hs" hs 0 c]
    by (cases "get_heap_from_caps hs 0 (length hs) c") (auto simp: get_heap_from_caps_def)
  show ?thesis
  proof (cases res)
    case None with res show ?thesis by simp
  next
    case (Some k)
    with res heap_from_caps_at_Some [of hs 0 0 "length hs" c k] nm show ?thesis
      by (auto simp: get_heap_from_caps_def no_match_def)
  qed
qed

text \<open>
  Claim C7. \<^verbatim>\<open>get_heap_from_caps\<close> over a whole array returns only a descriptor whose
  mask contains the request, and then the first such one; it returns none only when no
  descriptor qualifies. \<^verbatim>\<open>rmalloc_runtime\<close> allocates from the first qualifying runtime
  heap; when no runtime heap qualifies, from the first qualifying buffer heap; when
  neither array has one it returns null and leaves the registry as it was.
\<close>

theorem select_heap_by_caps:
  "(get_heap_from_caps hs 0 (length hs) c = Inr (Some k) \<longrightarrow> first_match hs c k)
   \<and> (get_heap_from_caps hs 0 (length hs) c = Inr None \<longrightarrow> no_match hs c)
   \<and> (first_match (runtime mm) c i \<longrightarrow>
        rmalloc_runtime pf mm zone c bytes =
          (case get_ptr_from_heap pf (runtime mm ! i) zone bytes of
             Inl e \<Rightarrow> Inl e
           | Inr (p, h') \<Rightarrow> Inr (p, heap_upd mm (Runtime i) h')))
   \<and> (no_match (runtime mm) c \<and> first_match (buffer mm) c i \<longrightarrow>
        rmalloc_runtime pf mm zone c bytes =
          (case get_ptr_from_heap pf (buffer mm ! i) zone bytes of
             Inl e \<Rightarrow> Inl e
           | Inr (p, h') \<Rightarrow> Inr (p, heap_upd mm (Buffer i) h')))
   \<and> (no_match (runtime mm) c \<and> no_match (buffer mm) c \<longrightarrow>
        rmalloc_runtime pf mm zone c bytes = Inr (0, mm))"
proof (intro conjI impI)
  assume "get_heap_from_caps hs 0 (length hs) c = Inr (Some k)"
  with heap_from_caps_at_Some [of hs 0 0 "length hs" c k] show "first_match hs c k"
    by (simp add: get_heap_from_caps_def first_match_def)
next
  assume "get_heap_from_caps hs 0 (length hs) c = Inr None"
  with heap_from_caps_at_None [of hs 0 0 "length hs" c] show "no_match hs c"
    by (simp add: get_heap_from_caps_def no_match_def)
next
  assume "first_match (runtime mm) c i"
  then show "rmalloc_runtime pf mm zone c bytes =
          (case get_ptr_from_heap pf (runtime mm ! i) zone bytes of
             Inl e \<Rightarrow> Inl e
           | Inr (p, h') \<Rightarrow> Inr (p, heap_upd mm (Runtime i) h'))"
    by (simp add: rmalloc_runtime_def get_heap_from_caps_first_match)
next
  assume "no_match (runtime mm) c \<and> first_match (buffer mm) c i"
  then show "rmalloc_runtime pf mm zone c bytes =
          (case get_ptr_from_heap pf (buffer mm ! i) zone bytes of
             Inl e \<Rightarrow> Inl e
           | Inr (p, h') \<Rightarrow> Inr (p, heap_upd mm (Buffer i) h'))"
    by (clarsimp simp: rmalloc_runtime_def get_heap_from_caps_first_match
        get_heap_from_caps_no_match)
next
  assume "no_match (runtime mm) c \<and> no_match (buffer mm) c"
  then show "rmalloc_runtime pf mm zone c bytes = Inr (0, mm)"
    by (clarsimp simp: rmalloc_runtime_def get_heap_from_caps_no_match)
qed

theorem select_heap_by_caps_witness:
  "get_heap_from_caps (buffer mmc) 0 (length (buffer mmc)) 2 = Inr (Some 1)
   \<and> first_match (buffer mmc) 2 1
   \<and> get_heap_from_caps (buffer mmc) 0 (length (buffer mmc)) 8 = Inr None
   \<and> no_match (buffer mmc) 8
   \<and> first_match (runtime mmc) 1 0
   \<and> (case rmalloc_runtime pf0 mmc 2 1 16 of Inl e \<Rightarrow> False | Inr (p, mm') \<Rightarrow> p = 0x2000)
   \<and> no_match (runtime mmc) 2
   \<and> (case rmalloc_runtime pf0 mmc 2 2 16 of Inl e \<Rightarrow> False | Inr (p, mm') \<Rightarrow> p = 0x3040)
   \<and> no_match (runtime mmc) 8
   \<and> rmalloc_runtime pf0 mmc 2 8 16 = Inr (0, mmc)"
proof -
  have g1: "get_heap_from_caps (buffer mmc) 0 (length (buffer mmc)) 2 = Inr (Some 1)"
    by code_simp
  have g2: "get_heap_from_caps (buffer mmc) 0 (length (buffer mmc)) 8 = Inr None"
    by code_simp
  have f1: "first_match (runtime mmc) 1 0"
    by (simp add: first_match_def mmc_def heap16x4_def)
  have f2: "no_match (runtime mmc) 2 \<and> first_match (buffer mmc) 2 1"
    by (simp add: first_match_def no_match_def mmc_def heap16x4_def)
  have f3: "no_match (runtime mmc) 8 \<and> no_match (buffer mmc) 8"
    by (simp add: no_match_def mmc_def heap16x4_def less_Suc_eq)
  have p1: "(case get_ptr_from_heap pf0 (runtime mmc ! 0) 2 16 of
               Inl e \<Rightarrow> False | Inr (p, h') \<Rightarrow> p = 0x2000)"
    by code_simp
  have p2: "(case get_ptr_from_heap pf0 (buffer mmc ! 1) 2 16 of
               Inl e \<Rightarrow> False | Inr (p, h') \<Rightarrow> p = 0x3040)"
    by code_simp
  note a = select_heap_by_caps [of "buffer mmc" 2 1 mmc 0 pf0 2 16]
  note b = select_heap_by_caps [of "buffer mmc" 2 1 mmc 1 pf0 2 16]
  note c = select_heap_by_caps [of "buffer mmc" 8 1 mmc 0 pf0 2 16]
  note d = select_heap_by_caps [of "runtime mmc" 1 0 mmc 0 pf0 2 16]
  from d f1 p1
  have r1: "(case rmalloc_runtime pf0 mmc 2 1 16 of Inl e \<Rightarrow> False | Inr (p, mm') \<Rightarrow> p = 0x2000)"
    by (auto split: sum.splits prod.splits)
  from b f2 p2
  have r2: "(case rmalloc_runtime pf0 mmc 2 2 16 of Inl e \<Rightarrow> False | Inr (p, mm') \<Rightarrow> p = 0x3040)"
    by (auto split: sum.splits prod.splits)
  from c f3 have r3: "rmalloc_runtime pf0 mmc 2 8 16 = Inr (0, mmc)"
    by simp
  from a g1 have m1: "first_match (buffer mmc) 2 1"
    by simp
  from c g2 have m2: "no_match (buffer mmc) 8"
    by simp
  from g1 g2 f1 f2 f3 r1 r2 r3 m1 m2 show ?thesis
    by simp
qed

section \<open>Null pointers and zero sizes\<close>

text \<open>
  Claim C9. Freeing the null pointer returns at once with the registry and the memory
  untouched; reallocating to size zero, in either variant, returns null and leaves the
  whole machine as it was: nothing is allocated, the old pointer is not freed and no
  byte of memory is written.
\<close>

theorem free_null_and_realloc_zero:
  "rfree_unlocked pf mm core 0 = Inr mm
   \<and> rfree pf st core 0 = Inr st
   \<and> realloc pf st core ptr zone c 0 = Inr (0, st)
   \<and> brealloc pf st core ptr zone c 0 = Inr (0, st)"
  by (simp add: rfree_unlocked_def rfree_def realloc_def brealloc_def)

section \<open>Freeing a pointer of a system heap\<close>

lemma in_range_word:
  fixes b p sz :: "32 word"
  assumes "unat b + unat sz < 2 ^ 32" "unat b \<le> unat p" "unat p < unat b + unat sz"
  shows "b \<le> p \<and> p < b + sz"
proof -
  have "unat (b + sz) = unat b + unat sz"
    using assms(1) by (simp add: unat_word_ariths)
  with assms show ?thesis
    by (simp add: word_le_nat_alt word_less_nat_alt)
qed

text \<open>
  Claim C5, as stated, fails: \<^verbatim>\<open>_rfree_unlocked\<close> tests the system heap of the calling
  core only. On core 0 the address \<open>0x1110\<close>, which lies inside the system heap of core 1,
  is passed on to \<^verbatim>\<open>free_block\<close>; no heap claims it and the call returns.
\<close>

theorem free_other_core_system_heap_returns:
  "(0x1110 :: addr) \<noteq> 0
   \<and> in_heap (system mm0 ! 1) 0x1110
   \<and> rfree_unlocked pf0 mm0 0 0x1110 = Inr (mm0\<lparr>heap_trace_updated := 1\<rparr>)"
  by code_simp

text \<open>
  Claim C5, amended. For every non-null pointer whose cached address lies inside the
  system heap of the calling core (a region that does not wrap around the address
  space), free takes the panic path: it neither reaches \<^verbatim>\<open>free_block\<close> nor returns.
\<close>

theorem free_own_system_heap_panics:
  assumes "ptr \<noteq> 0" and "core < length (system mm)"
    and "p = (if is_uncached pf ptr then uncache_to_cache pf ptr else ptr)"
    and "unat (heap (system mm ! core)) + unat (heap_size (system mm ! core)) < 2 ^ 32"
    and "unat (heap (system mm ! core)) \<le> unat p"
    and "unat p < unat (heap (system mm ! core)) + unat (heap_size (system mm ! core))"
  shows "rfree_unlocked pf mm core ptr = Inl Panic
         \<and> rfree pf \<lparr>memmap = mm, ram = r\<rparr> core ptr = Inl Panic"
proof -
  from in_range_word [OF assms(4) assms(5) assms(6)]
  have "heap (system mm ! core) \<le> p
        \<and> p < heap (system mm ! core) + heap_size (system mm ! core)" .
  with assms(1,2,3) show ?thesis
    by (simp add: rfree_unlocked_def rfree_def Let_def)
qed

theorem free_own_system_heap_panics_witness:
  "rfree_unlocked pf0 mm0 1 0x20001110 = Inl Panic
   \<and> rfree pf0 \<lparr>memmap = mm0, ram = (\<lambda>a. 0)\<rparr> 1 0x20001110 = Inl Panic
   \<and> rfree_unlocked pf0 mm0 0 0x10FF = Inl Panic"
proof -
  have a: "rfree_unlocked pf0 mm0 1 0x20001110 = Inl Panic
       \<and> rfree pf0 \<lparr>memmap = mm0, ram = (\<lambda>a. 0)\<rparr> 1 0x20001110 = Inl Panic"
    by (rule free_own_system_heap_panics [where p = "0x1110"])
      (simp_all add: mm0_def sys_heap_def pf0_def)
  have b: "rfree_unlocked pf0 mm0 0 0x10FF = Inl Panic
       \<and> rfree pf0 \<lparr>memmap = mm0, ram = (\<lambda>a. 0)\<rparr> 0 0x10FF = Inl Panic"
    by (rule free_own_system_heap_panics [where p = "0x10FF"])
      (simp_all add: mm0_def sys_heap_def pf0_def)
  from a b show ?thesis by simp
qed

section \<open>Defects of the span allocator and of the free-slot hint\<close>

text \<open>
  Claim C1 fails on the code. From the boot state, \<^verbatim>\<open>_balloc\<close> of 16 bytes takes slot 0
  of the buffer heap's map; \<^verbatim>\<open>_balloc\<close> of 32 bytes then takes the span of two blocks at
  slot 1, and the loop that marks the span runs from \<open>start = 1\<close> to \<open>count = 2\<close>
  instead of \<open>start + count\<close>. Three blocks are granted and \<open>free_count\<close> is 1, but
  only two headers are marked used: the capacity invariant, which holds at boot, is lost.
\<close>

theorem capacity_invariant_lost_by_span:
  "capacity_invariant mm0
   \<and> (case run [Balloc 16, Balloc 32] (mm0, []) of
        Inl e \<Rightarrow> False
      | Inr (mm, ps) \<Rightarrow>
          ps = [0x3010, 0x3000]
          \<and> free_count (maps (buffer mm ! 0) ! 0) = 1
          \<and> used_headers (maps (buffer mm ! 0) ! 0) = 2
          \<and> \<not> map_capacity_ok (maps (buffer mm ! 0) ! 0)
          \<and> \<not> capacity_invariant mm)"
  by code_simp

text \<open>
  Claim C2 fails on the code. With slot 0 taken by a single-block allocation, a span of
  two blocks starts at slot 1: the head header records size 2 and \<open>first_free\<close> advances
  to 3, but of the headers 1 and 2 only header 1 is marked used.
\<close>

theorem span_marks_only_below_count:
  "(case alloc_block (heap16x4 0x3000) 0 of
      Inl e \<Rightarrow> False
    | Inr (p0, h1) \<Rightarrow>
        p0 = 0x3000 \<and> first_free (maps h1 ! 0) = 1
        \<and> (case alloc_cont_blocks h1 0 32 of
              Inl e \<Rightarrow> False
            | Inr (p, h2) \<Rightarrow>
                p = 0x3010
                \<and> map hdr_size (block (maps h2 ! 0)) = [1, 2, 0, 0]
                \<and> map hdr_used (block (maps h2 ! 0)) = [1, 1, 0, 0]
                \<and> first_free (maps h2 ! 0) = 3))"
  by code_simp

text \<open>
  Scenario B of the specification, where the span starts at slot 0, does come out as
  described: 40 bytes take three blocks at \<open>base\<close>, and the next 16 bytes land at
  \<open>base + 48\<close>.
\<close>

lemma scenario_B:
  "(case run [Balloc 40, Balloc 16] (mm0, []) of
      Inl e \<Rightarrow> False
    | Inr (mm, ps) \<Rightarrow>
        ps = [0x3030, 0x3000]
        \<and> map hdr_size (block (maps (buffer mm ! 0) ! 0)) = [3, 0, 0, 1]
        \<and> map hdr_used (block (maps (buffer mm ! 0) ! 0)) = [1, 1, 1, 1])"
  by code_simp

text \<open>
  Claim C3 fails on the code. Four 16-byte allocations fill the runtime heap's map. Slot 0
  is freed and granted again; the scan for the next free slot finds none and leaves
  \<open>first_free\<close> at 0, a used slot. Freeing slot 1 raises \<open>free_count\<close> to 1 but does
  not move \<open>first_free\<close>, since 1 is not below 0. The map now qualifies for a single-block
  allocation while the header at \<open>first_free\<close> is in use, and the next allocation
  returns \<open>0x2000\<close>, the address of the live block granted just before.
\<close>

theorem used_slot_granted_again:
  "(case run [Malloc 16, Malloc 16, Malloc 16, Malloc 16, Free 0x2000, Malloc 16, Free 0x2010]
           (mm0, []) of
      Inl e \<Rightarrow> False
    | Inr (mm, ps) \<Rightarrow>
        (let m = maps (runtime mm ! 0) ! 0 in
         hd ps = 0x2000
         \<and> block_size m = 16 \<and> free_count m = 1 \<and> first_free m = 0
         \<and> hdr_used (block m ! unat (first_free m)) = 1
         \<and> (case malloc_unlocked pf0 mm 0 (rzone_runtime pf0) 0 16 of
               Inl e \<Rightarrow> False
             | Inr (p, mm') \<Rightarrow> p = 0x2000 \<and> free_count (maps (runtime mm' ! 0) ! 0) = 0
                 \<and> map hdr_used (block (maps (runtime mm' ! 0) ! 0)) = [1, 0, 1, 1])))"
  by code_simp

section \<open>Where free looks for a pointer\<close>


















section \<open>Allocate, then free\<close>



lemma alloc_block_Inr:
  assumes "alloc_block h level = Inr (ptr, h')"
  shows "level < length (maps h)"
    and "unat (first_free (maps h ! level)) < length (block (maps h ! level))"
    and "ptr = base (maps h ! level)
               + ucast (first_free (maps h ! level)) * ucast (block_size (maps h ! level))"
    and "\<exists>ff'. h' = h\<lparr>maps := (maps h)[level := (maps h ! level)
                        \<lparr>free_count := free_count (maps h ! level) - 1,
                         block := (block (maps h ! level))
                           [unat (first_free (maps h ! level)) := \<lparr>hdr_size = 1, hdr_used = 1\<rparr>],
                         first_free := ff'\<rparr>],
                   info := \<lparr>info_used = info_used (info h) + ucast (block_size (maps h ! level)),
                            info_free = info_free (info h) - ucast (block_size (maps h ! level))\<rparr>\<rparr>"
proof -
  from assms show l: "level < length (maps h)"
    by (auto simp: alloc_block_def split: if_splits)
  from assms l show f: "unat (first_free (maps h ! level)) < length (block (maps h ! level))"
    by (auto simp: alloc_block_def Let_def split: if_splits)
  from assms l f show "ptr = base (maps h ! level)
               + ucast (first_free (maps h ! level)) * ucast (block_size (maps h ! level))"
    by (auto simp: alloc_block_def Let_def split: sum.splits)
  from assms l f show "\<exists>ff'. h' = h\<lparr>maps := (maps h)[level := (maps h ! level)
                        \<lparr>free_count := free_count (maps h ! level) - 1,
                         block := (block (maps h ! level))
                           [unat (first_free (maps h ! level)) := \<lparr>hdr_size = 1, hdr_used = 1\<rparr>],
                         first_free := ff'\<rparr>],
                   info := \<lparr>info_used = info_used (info h) + ucast (block_size (maps h ! level)),
                            info_free = info_free (info h) - ucast (block_size (maps h ! level))\<rparr>\<rparr>"
    apply (simp add: alloc_block_def Let_def split: sum.splits option.splits)
     apply (rule exI [of _ "first_free (maps h ! level)"])
     apply simp
    apply auto
    done
qed

lemma free_loop_closed:
  "i \<le> n \<Longrightarrow> n \<le> length (block m) \<Longrightarrow>
   \<exists>hs'. free_loop i n m nfo =
       Inr (m\<lparr>block := hs', free_count := free_count m + of_nat (n - i)\<rparr>,
            \<lparr>info_used = info_used nfo - of_nat (n - i) * ucast (block_size m),
             info_free = info_free nfo + of_nat (n - i) * ucast (block_size m)\<rparr>)
     \<and> length hs' = length (block m)
     \<and> (\<forall>k. i \<le> k \<and> k < n \<longrightarrow> hs' ! k = \<lparr>hdr_size = 0, hdr_used = 0\<rparr>)
     \<and> (\<forall>k. k < i \<or> n \<le> k \<longrightarrow> hs' ! k = block m ! k)"
proof (induction i n m nfo rule: free_loop.induct)
  case (1 i n m nfo)
  show ?case
  proof (cases "i < n")
    case False
    with "1.prems" have "i = n" by simp
    then show ?thesis
      by (subst free_loop.simps) (auto intro!: exI [of _ "block m"])
  next
    case True
    let ?mb = "m\<lparr>block := (block m)[i := \<lparr>hdr_size = 0, hdr_used = 0\<rparr>],
                  free_count := free_count m + 1\<rparr>"
    let ?n1 = "\<lparr>info_used = info_used nfo - ucast (block_size m),
               info_free = info_free nfo + ucast (block_size m)\<rparr>"
    from True "1.prems" have il: "i < length (block m)" by simp
    from "1.IH" [OF True il] True "1.prems"
    obtain hs' where ih: "free_loop (Suc i) n ?mb ?n1 =
       Inr (?mb\<lparr>block := hs', free_count := free_count ?mb + of_nat (n - Suc i)\<rparr>,
            \<lparr>info_used = info_used ?n1 - of_nat (n - Suc i) * ucast (block_size ?mb),
             info_free = info_free ?n1 + of_nat (n - Suc i) * ucast (block_size ?mb)\<rparr>)"
      and len: "length hs' = length (block ?mb)"
      and clr: "\<forall>k. Suc i \<le> k \<and> k < n \<longrightarrow> hs' ! k = \<lparr>hdr_size = 0, hdr_used = 0\<rparr>"
      and keep: "\<forall>k. k < Suc i \<or> n \<le> k \<longrightarrow> hs' ! k = block ?mb ! k"
      by auto
    have cnt: "n - i = Suc (n - Suc i)"
      using True by simp
    have eq: "free_loop i n m nfo = free_loop (Suc i) n ?mb ?n1"
      using True il by (subst free_loop.simps) simp
    have a: "free_loop i n m nfo =
       Inr (m\<lparr>block := hs', free_count := free_count m + of_nat (n - i)\<rparr>,
            \<lparr>info_used = info_used nfo - of_nat (n - i) * ucast (block_size m),
             info_free = info_free nfo + of_nat (n - i) * ucast (block_size m)\<rparr>)"
      unfolding eq ih cnt by (simp add: algebra_simps)
    have b: "hs' ! k = \<lparr>hdr_size = 0, hdr_used = 0\<rparr>" if "i \<le> k \<and> k < n" for k
    proof (cases "k = i")
      case True
      with keep il show ?thesis by simp
    next
      case False
      with that clr show ?thesis by simp
    qed
    have c: "hs' ! k = block m ! k" if "k < i \<or> n \<le> k" for k
      using that keep True by auto
    from a b c len show ?thesis
      by auto
  qed
qed

lemma heap_upd_fields:
  "system (heap_upd mm r h) = system mm"
  "length (system_runtime (heap_upd mm r h)) = length (system_runtime mm)"
  "length (runtime (heap_upd mm r h)) = length (runtime mm)"
  "length (buffer (heap_upd mm r h)) = length (buffer mm)"
  "heap_trace_updated (heap_upd mm r h) = heap_trace_updated mm"
  by (cases r; simp)+





lemma in_heap_cong: "heap h' = heap h \<Longrightarrow> heap_size h' = heap_size h \<Longrightarrow> in_heap h' p = in_heap h p"
  by (simp add: in_heap_def)




lemma free_block_resolved:
  "get_heap_from_ptr mm core p = Inr (Some r) \<Longrightarrow> find_map (heap_at mm r) p 0 = Inr (Some i) \<Longrightarrow>
   free_block mm core p =
     (case free_in_map (heap_at mm r) i p of Inl e \<Rightarrow> Inl e | Inr h' \<Rightarrow> Inr (heap_upd mm r h'))"
  by (simp add: free_block_def)

lemma free_in_map_at_slot:
  fixes ff :: "16 word"
  assumes m: "m = maps h ! i"
    and bs: "block_size m \<noteq> 0"
    and ptr: "ptr = base m + ucast ff * ucast (block_size m)"
    and k: "unat ff < length (block m)"
    and n: "n = unat (hdr_size (block m ! unat ff))"
    and fit: "unat ff + n \<le> length (block m)"
  shows "\<exists>hs'. free_in_map h i ptr =
        Inr (h\<lparr>maps := (maps h)[i := m\<lparr>block := hs',
                       free_count := free_count m + of_nat n,
                       first_free := (if ff < first_free m then ff else first_free m)\<rparr>],
               info := \<lparr>info_used = info_used (info h) - of_nat n * ucast (block_size m),
                        info_free = info_free (info h) + of_nat n * ucast (block_size m)\<rparr>\<rparr>)
      \<and> length hs' = length (block m)
      \<and> (\<forall>j. unat ff \<le> j \<and> j < unat ff + n \<longrightarrow> hs' ! j = \<lparr>hdr_size = 0, hdr_used = 0\<rparr>)
      \<and> (\<forall>j. j < unat ff \<or> unat ff + n \<le> j \<longrightarrow> hs' ! j = block m ! j)"
proof -
  let ?bs = "ucast (block_size m) :: 32 word"
  let ?blk = "(ptr - base m) div ?bs"
  have blk: "?blk = ucast ff"
    using slot_index_recovered [OF bs, of ff] by (simp add: ptr)
  have aligned: "base m + ?bs * ucast ff = ptr"
    by (simp add: ptr mult.commute)
  have "unat (ucast ff :: 32 word) < 2 ^ 31"
    using unat16_lt [of ff] by (simp add: unat_ucast16)
  from sint_small [OF this] have nonneg: "\<not> sint (ucast ff :: 32 word) < 0"
    by simp
  from free_loop_closed [of "unat ff" "unat ff + n" m "info h"] fit
  obtain hs' where fl: "free_loop (unat ff) (unat ff + n) m (info h) =
       Inr (m\<lparr>block := hs', free_count := free_count m + of_nat n\<rparr>,
            \<lparr>info_used = info_used (info h) - of_nat n * ucast (block_size m),
             info_free = info_free (info h) + of_nat n * ucast (block_size m)\<rparr>)"
    and len: "length hs' = length (block m)"
    and clr: "\<forall>j. unat ff \<le> j \<and> j < unat ff + n \<longrightarrow> hs' ! j = \<lparr>hdr_size = 0, hdr_used = 0\<rparr>"
    and keep: "\<forall>j. j < unat ff \<or> unat ff + n \<le> j \<longrightarrow> hs' ! j = block m ! j"
    by auto
  have "free_in_map h i ptr =
        Inr (h\<lparr>maps := (maps h)[i := m\<lparr>block := hs',
                       free_count := free_count m + of_nat n,
                       first_free := (if ff < first_free m then ff else first_free m)\<rparr>],
               info := \<lparr>info_used = info_used (info h) - of_nat n * ucast (block_size m),
                        info_free = info_free (info h) + of_nat n * ucast (block_size m)\<rparr>\<rparr>)"
    using bs k
    by (simp add: free_in_map_def m [symmetric] Let_def blk aligned nonneg unat_ucast16
        n [symmetric] fl ucast16_less ucast_ucast16)
  with len clr keep show ?thesis
    by blast
qed










section \<open>Freeing a block whose head header is free\<close>

text \<open>
  Claim C10. Let \<open>p\<close> be the address of slot \<open>k\<close> of a map that \<^verbatim>\<open>free_block\<close>
  resolves \<open>p\<close> to, and let the header of slot \<open>k\<close> record size 0. Then
  \<^verbatim>\<open>free_block\<close> returns, and the registry it leaves differs from the one it found at
  most in the \<open>first_free\<close> of that map, which is lowered to \<open>k\<close> when \<open>k\<close> is
  below it: \<open>free_count\<close>, \<open>info.used\<close>, \<open>info.free\<close> and every header are
  unchanged.
\<close>

theorem free_of_free_head_is_benign:
  fixes k :: "16 word"
  assumes res: "get_heap_from_ptr mm core p = Inr (Some r)"
    and fm: "find_map (heap_at mm r) p 0 = Inr (Some i)"
    and bs: "block_size (maps (heap_at mm r) ! i) \<noteq> 0"
    and al: "p = base (maps (heap_at mm r) ! i)
                 + ucast k * ucast (block_size (maps (heap_at mm r) ! i))"
    and inb: "unat k < length (block (maps (heap_at mm r) ! i))"
    and fr: "hdr_size (block (maps (heap_at mm r) ! i) ! unat k) = 0"
  shows "free_block mm core p =
           Inr (heap_upd mm r ((heap_at mm r)\<lparr>maps := (maps (heap_at mm r))
                  [i := (maps (heap_at mm r) ! i)
                     \<lparr>first_free := (if k < first_free (maps (heap_at mm r) ! i) then k
                                      else first_free (maps (heap_at mm r) ! i))\<rparr>]\<rparr>))"
proof -
  let ?h = "heap_at mm r"
  let ?m = "maps ?h ! i"
  have n0: "0 = unat (hdr_size (block ?m ! unat k))"
    by (simp add: fr)
  from free_in_map_at_slot [of ?m ?h i p k 0, OF refl bs al inb n0] inb
  obtain hs' where fim: "free_in_map ?h i p =
        Inr (?h\<lparr>maps := (maps ?h)[i := ?m\<lparr>block := hs',
                       free_count := free_count ?m + of_nat 0,
                       first_free := (if k < first_free ?m then k else first_free ?m)\<rparr>],
               info := \<lparr>info_used = info_used (info ?h) - of_nat 0 * ucast (block_size ?m),
                        info_free = info_free (info ?h) + of_nat 0 * ucast (block_size ?m)\<rparr>\<rparr>)"
    and len: "length hs' = length (block ?m)"
    and keep: "\<forall>j. j < unat k \<or> unat k + 0 \<le> j \<longrightarrow> hs' ! j = block ?m ! j"
    by auto
  have same: "hs' = block ?m"
  proof (rule nth_equalityI)
    show "length hs' = length (block ?m)" by (rule len)
    fix j assume "j < length hs'"
    from keep [rule_format, of j] show "hs' ! j = block ?m ! j"
      by (cases "j < unat k") simp_all
  qed
  have "free_in_map ?h i p =
      Inr (?h\<lparr>maps := (maps ?h)[i := ?m\<lparr>first_free :=
              (if k < first_free ?m then k else first_free ?m)\<rparr>]\<rparr>)"
    unfolding fim same by simp
  with free_block_resolved [OF res fm] show ?thesis
    by simp
qed

theorem free_of_free_head_is_benign_witness:
  "free_block mm0 0 0x3020 = Inr mm0
   \<and> free_block (heap_upd mm0 (Buffer 0) heap_span_taken) 0 0x3010 =
        Inr (heap_upd mm0 (Buffer 0)
               (heap_span_taken\<lparr>maps := [(maps heap_span_taken ! 0)\<lparr>first_free := 1\<rparr>]\<rparr>))"
proof -
  have res: "get_heap_from_ptr mm0 0 0x3020 = Inr (Some (Buffer 0))"
    by code_simp
  have fm: "find_map (heap_at mm0 (Buffer 0)) 0x3020 0 = Inr (Some 0)"
    by code_simp
  have bs: "block_size (maps (heap_at mm0 (Buffer 0)) ! 0) \<noteq> 0"
    by code_simp
  have al: "(0x3020 :: addr) = base (maps (heap_at mm0 (Buffer 0)) ! 0)
                 + ucast (2 :: 16 word) * ucast (block_size (maps (heap_at mm0 (Buffer 0)) ! 0))"
    by code_simp
  have inb: "unat (2 :: 16 word) < length (block (maps (heap_at mm0 (Buffer 0)) ! 0))"
    by code_simp
  have fr: "hdr_size (block (maps (heap_at mm0 (Buffer 0)) ! 0) ! unat (2 :: 16 word)) = 0"
    by code_simp
  have e: "heap_upd mm0 (Buffer 0) ((heap_at mm0 (Buffer 0))\<lparr>maps := (maps (heap_at mm0 (Buffer 0)))
                  [0 := (maps (heap_at mm0 (Buffer 0)) ! 0)
                     \<lparr>first_free := (if 2 < first_free (maps (heap_at mm0 (Buffer 0)) ! 0) then 2
                                      else first_free (maps (heap_at mm0 (Buffer 0)) ! 0))\<rparr>]\<rparr>) = mm0"
    by code_simp
  from free_of_free_head_is_benign [OF res fm bs al inb fr] e
  have a: "free_block mm0 0 0x3020 = Inr mm0"
    by simp
  let ?mm = "heap_upd mm0 (Buffer 0) heap_span_taken"
  have res': "get_heap_from_ptr ?mm 0 0x3010 = Inr (Some (Buffer 0))"
    by code_simp
  have fm': "find_map (heap_at ?mm (Buffer 0)) 0x3010 0 = Inr (Some 0)"
    by code_simp
  have bs': "block_size (maps (heap_at ?mm (Buffer 0)) ! 0) \<noteq> 0"
    by code_simp
  have al': "(0x3010 :: addr) = base (maps (heap_at ?mm (Buffer 0)) ! 0)
                 + ucast (1 :: 16 word) * ucast (block_size (maps (heap_at ?mm (Buffer 0)) ! 0))"
    by code_simp
  have inb': "unat (1 :: 16 word) < length (block (maps (heap_at ?mm (Buffer 0)) ! 0))"
    by code_simp
  have fr': "hdr_size (block (maps (heap_at ?mm (Buffer 0)) ! 0) ! unat (1 :: 16 word)) = 0"
    by code_simp
  have e': "heap_upd ?mm (Buffer 0) ((heap_at ?mm (Buffer 0))\<lparr>maps := (maps (heap_at ?mm (Buffer 0)))
                  [0 := (maps (heap_at ?mm (Buffer 0)) ! 0)
                     \<lparr>first_free := (if 1 < first_free (maps (heap_at ?mm (Buffer 0)) ! 0) then 1
                                      else first_free (maps (heap_at ?mm (Buffer 0)) ! 0))\<rparr>]\<rparr>)
        = heap_upd mm0 (Buffer 0)
               (heap_span_taken\<lparr>maps := [(maps heap_span_taken ! 0)\<lparr>first_free := 1\<rparr>]\<rparr>)"
    by code_simp
  from free_of_free_head_is_benign [OF res' fm' bs' al' inb' fr'] e'
  have b: "free_block ?mm 0 0x3010 = Inr (heap_upd mm0 (Buffer 0)
               (heap_span_taken\<lparr>maps := [(maps heap_span_taken ! 0)\<lparr>first_free := 1\<rparr>]\<rparr>))"
    by simp
  from a b show ?thesis by simp
qed

section \<open>Block boundaries\<close>









section \<open>A reallocation that cannot allocate\<close>

lemma slot_nonnull:
  assumes "heap_nonnull h" "level < length (maps h)"
    and "unat (ff :: 16 word) < length (block (maps h ! level))"
  shows "base (maps h ! level) + ucast ff * ucast (block_size (maps h ! level)) \<noteq> 0"
proof -
  from assms(1,2) have "map_nonnull (maps h ! level)"
    by (simp add: heap_nonnull_def list_all_length)
  then have "\<forall>k<length (block (maps h ! level)).
      base (maps h ! level) + of_nat k * ucast (block_size (maps h ! level)) \<noteq> 0"
    by (simp add: map_nonnull_def list_all_iff)
  from this [rule_format, OF assms(3)] show ?thesis
    by (simp add: of_nat_unat16)
qed

lemma alloc_block_nonnull:
  assumes "alloc_block h level = Inr (ptr, h')" "heap_nonnull h"
  shows "ptr \<noteq> 0"
  using alloc_block_Inr(1,2,3) [OF assms(1)] slot_nonnull [OF assms(2)] by simp

lemma get_ptr_loop_null:
  "get_ptr_loop h bytes i = Inr (0, h') \<Longrightarrow> heap_nonnull h \<Longrightarrow> h' = h"
proof (induction h bytes i rule: get_ptr_loop.induct)
  case (1 h bytes i)
  show ?case
  proof (cases "i < unat (blocks h)")
    case False
    with "1.prems" show ?thesis
      by (subst (asm) get_ptr_loop.simps) simp
  next
    case True
    with "1.prems" have il: "i < length (maps h)"
      by (subst (asm) get_ptr_loop.simps) (simp split: if_splits)
    show ?thesis
    proof (cases "ucast (block_size (maps h ! i)) < bytes")
      case small: True
      with "1.prems" True il have "get_ptr_loop h bytes (Suc i) = Inr (0, h')"
        by (subst (asm) get_ptr_loop.simps) (simp add: Let_def)
      from "1.IH"(1) [OF True il refl small this "1.prems"(2)] show ?thesis .
    next
      case big: False
      show ?thesis
      proof (cases "free_count (maps h ! i) = 0")
        case full: True
        with "1.prems" True il big have "get_ptr_loop h bytes (Suc i) = Inr (0, h')"
          by (subst (asm) get_ptr_loop.simps) (simp add: Let_def)
        from "1.IH"(2) [OF True il refl big full this "1.prems"(2)] show ?thesis .
      next
        case False
        with "1.prems" True il big have "alloc_block h i = Inr (0, h')"
          by (subst (asm) get_ptr_loop.simps) (simp add: Let_def)
        from alloc_block_nonnull [OF this "1.prems"(2)] show ?thesis
          by simp
      qed
    qed
  qed
qed

lemma get_ptr_from_heap_null:
  assumes "get_ptr_from_heap pf h zone bytes = Inr (0, h')" "heap_nonnull h" "alias_nonnull pf"
  shows "h' = h"
proof -
  from assms(1) obtain p where lp: "get_ptr_loop h bytes 0 = Inr (p, h')"
    and z: "(if p \<noteq> 0 \<and> zone_uncached pf zone then cache_to_uncache pf p else p) = 0"
    by (auto simp: get_ptr_from_heap_def split: sum.splits)
  from z assms(3) have "p = 0"
    by (auto simp: alias_nonnull_def split: if_splits)
  with lp get_ptr_loop_null [OF _ assms(2)] show ?thesis
    by simp
qed

lemma heap_upd_same: "valid_ref mm r \<Longrightarrow> heap_upd mm r (heap_at mm r) = mm"
  by (cases r) simp_all

lemma nonnull_blocks_at: "nonnull_blocks mm \<Longrightarrow> valid_ref mm r \<Longrightarrow> heap_nonnull (heap_at mm r)"
  by (cases r) (auto simp: nonnull_blocks_def list_all_iff)

lemma rmalloc_sys_runtime_null:
  assumes "rmalloc_sys_runtime pf mm zone c core bytes = Inr (0, mm')"
    and "nonnull_blocks mm" "alias_nonnull pf"
  shows "mm' = mm"
proof -
  from assms(1) have c: "core < length (system_runtime mm)"
    by (simp add: rmalloc_sys_runtime_def split: if_splits)
  then have v: "valid_ref mm (SysRuntime core)" by simp
  from assms(1) c obtain h' where
    g: "get_ptr_from_heap pf (heap_at mm (SysRuntime core)) zone bytes = Inr (0, h')"
    and m: "mm' = heap_upd mm (SysRuntime core) h'"
    by (auto simp: rmalloc_sys_runtime_def Let_def split: if_splits sum.splits)
  from get_ptr_from_heap_null [OF g nonnull_blocks_at [OF assms(2) v] assms(3)]
  have "h' = heap_at mm (SysRuntime core)" .
  with m heap_upd_same [OF v] show ?thesis by simp
qed

lemma rmalloc_runtime_null:
  assumes "rmalloc_runtime pf mm zone c bytes = Inr (0, mm')"
    and "nonnull_blocks mm" "alias_nonnull pf"
  shows "mm' = mm"
proof (cases "get_heap_from_caps (runtime mm) 0 (length (runtime mm)) c")
  case (Inl e)
  with assms(1) show ?thesis by (simp add: rmalloc_runtime_def)
next
  case (Inr res)
  show ?thesis
  proof (cases res)
    case (Some i)
    from heap_from_caps_at_Some [of "runtime mm" 0 0 "length (runtime mm)" c i] Inr Some
    have v: "valid_ref mm (Runtime i)"
      by (simp add: get_heap_from_caps_def)
    from assms(1) Inr Some obtain h' where
      g: "get_ptr_from_heap pf (heap_at mm (Runtime i)) zone bytes = Inr (0, h')"
      and m: "mm' = heap_upd mm (Runtime i) h'"
      by (auto simp: rmalloc_runtime_def split: sum.splits)
    from get_ptr_from_heap_null [OF g nonnull_blocks_at [OF assms(2) v] assms(3)]
    have "h' = heap_at mm (Runtime i)" .
    with m heap_upd_same [OF v] show ?thesis by simp
  next
    case None
    show ?thesis
    proof (cases "get_heap_from_caps (buffer mm) 0 (length (buffer mm)) c")
      case (Inl e)
      with assms(1) \<open>get_heap_from_caps (runtime mm) 0 (length (runtime mm)) c = Inr res\<close> None
      show ?thesis by (simp add: rmalloc_runtime_def)
    next
      case bres: (Inr res')
      show ?thesis
      proof (cases res')
        case (Some i)
        from heap_from_caps_at_Some [of "buffer mm" 0 0 "length (buffer mm)" c i] bres Some
        have v: "valid_ref mm (Buffer i)"
          by (simp add: get_heap_from_caps_def)
        from assms(1) Inr None bres Some obtain h' where
          g: "get_ptr_from_heap pf (heap_at mm (Buffer i)) zone bytes = Inr (0, h')"
          and m: "mm' = heap_upd mm (Buffer i) h'"
          by (auto simp: rmalloc_runtime_def split: sum.splits)
        from get_ptr_from_heap_null [OF g nonnull_blocks_at [OF assms(2) v] assms(3)]
        have "h' = heap_at mm (Buffer i)" .
        with m heap_upd_same [OF v] show ?thesis by simp
      next
        case bn: None
        with assms(1) Inr None bres show ?thesis
          by (simp add: rmalloc_runtime_def)
      qed
    qed
  qed
qed

lemma rmalloc_sys_frame:
  "rmalloc_sys pf mm zone c core bytes = Inr (p, mm') \<Longrightarrow>
     system_runtime mm' = system_runtime mm \<and> runtime mm' = runtime mm \<and> buffer mm' = buffer mm"
  by (auto simp: rmalloc_sys_def Let_def split: if_splits)

lemma malloc_unlocked_null:
  assumes "malloc_unlocked pf mm core zone c bytes = Inr (0, mm')"
    and "nonnull_blocks mm" "alias_nonnull pf"
  shows "system_runtime mm' = system_runtime mm \<and> runtime mm' = runtime mm
         \<and> buffer mm' = buffer mm"
proof -
  let ?t = "zone AND rzone_type_mask pf"
  show ?thesis
  proof (cases "?t = rzone_sys pf")
    case True
    with assms(1) obtain mm1 where r: "rmalloc_sys pf mm zone c core bytes = Inr (0, mm1)"
      and m: "mm' = mm1\<lparr>heap_trace_updated := 1\<rparr>"
      by (auto simp: malloc_unlocked_def split: sum.splits)
    from rmalloc_sys_frame [OF r] m show ?thesis by simp
  next
    case ns: False
    show ?thesis
    proof (cases "?t = rzone_sys_runtime pf")
      case True
      with assms(1) ns obtain mm1 where r: "rmalloc_sys_runtime pf mm zone c core bytes = Inr (0, mm1)"
        and m: "mm' = mm1\<lparr>heap_trace_updated := 1\<rparr>"
        by (auto simp: malloc_unlocked_def split: sum.splits)
      from rmalloc_sys_runtime_null [OF r assms(2,3)] m show ?thesis by simp
    next
      case nsr: False
      show ?thesis
      proof (cases "?t = rzone_runtime pf")
        case True
        with assms(1) ns nsr obtain mm1 where r: "rmalloc_runtime pf mm zone c bytes = Inr (0, mm1)"
          and m: "mm' = mm1\<lparr>heap_trace_updated := 1\<rparr>"
          by (auto simp: malloc_unlocked_def split: sum.splits)
        from rmalloc_runtime_null [OF r assms(2,3)] m show ?thesis by simp
      next
        case False
        with assms(1) ns nsr show ?thesis
          by (simp add: malloc_unlocked_def)
      qed
    qed
  qed
qed

lemma alloc_cont_blocks_null:
  assumes ok: "alloc_cont_blocks h level bytes = Inr (0, h')" and nn: "heap_nonnull h"
  shows "h' = h"
proof -
  let ?m = "maps h ! level"
  let ?bs = "ucast (block_size ?m) :: 32 word"
  let ?cnt = "if bytes mod ?bs \<noteq> 0 then bytes div ?bs + 1 else bytes div ?bs"
  let ?start = "unat (first_free ?m)"
  from ok have lv: "level < length (maps h)"
    by (auto simp: alloc_cont_blocks_def split: if_splits)
  from ok lv have bs: "block_size ?m \<noteq> 0"
    by (auto simp: alloc_cont_blocks_def Let_def split: if_splits)
  from ok lv bs obtain remaining
    where rem: "count_remaining (block ?m) ?start (unat (count ?m)) 0 = Inr remaining"
    by (cases "count_remaining (block ?m) ?start (unat (count ?m)) 0")
      (auto simp: alloc_cont_blocks_def Let_def)
  show ?thesis
  proof (cases "?cnt > ucast (count ?m) \<or> remaining < ?cnt")
    case True
    with ok lv bs rem show ?thesis
      by (auto simp: alloc_cont_blocks_def Let_def split: if_splits)
  next
    case False
    with ok lv bs rem have st: "?start < length (block ?m)"
      by (auto simp: alloc_cont_blocks_def Let_def split: if_splits)
    let ?hs = "(block ?m)[?start := (block ?m ! ?start)\<lparr>hdr_size := ucast ?cnt\<rparr>]"
    from ok lv bs rem False st obtain hs'
      where mk: "mark_used ?hs ?start (unat ?cnt) = Inr hs'"
      by (cases "mark_used ?hs ?start (unat ?cnt)")
        (auto simp: alloc_cont_blocks_def Let_def split: if_splits)
    from ok lv bs rem False st mk
    have "(0 :: addr) = base ?m + ucast (first_free ?m) * ?bs"
      by (auto simp: alloc_cont_blocks_def Let_def split: if_splits)
    with slot_nonnull [OF nn lv st] show ?thesis
      by simp
  qed
qed

lemma single_block_loop_null:
  "single_block_loop h bytes i = Inr (0, h') \<Longrightarrow> heap_nonnull h \<Longrightarrow> h' = h"
proof (induction h bytes i rule: single_block_loop.induct)
  case (1 h bytes i)
  show ?case
  proof (cases "i < unat (blocks h)")
    case False
    with "1.prems" show ?thesis
      by (subst (asm) single_block_loop.simps) simp
  next
    case True
    with "1.prems" have il: "i < length (maps h)"
      by (subst (asm) single_block_loop.simps) (simp split: if_splits)
    show ?thesis
    proof (cases "ucast (block_size (maps h ! i)) \<ge> bytes \<and> free_count (maps h ! i) \<noteq> 0")
      case fits: True
      with "1.prems" True il have "alloc_block h i = Inr (0, h')"
        by (subst (asm) single_block_loop.simps) (simp add: Let_def)
      from alloc_block_nonnull [OF this "1.prems"(2)] show ?thesis
        by simp
    next
      case False
      with "1.prems" True il have "single_block_loop h bytes (Suc i) = Inr (0, h')"
        by (subst (asm) single_block_loop.simps) (simp add: Let_def)
      from "1.IH" [OF True il refl False this "1.prems"(2)] show ?thesis .
    qed
  qed
qed

lemma cont_blocks_loop_null:
  "cont_blocks_loop h bytes j = Inr (0, h') \<Longrightarrow> heap_nonnull h \<Longrightarrow> h' = h"
proof (induction j arbitrary: h)
  case 0
  then show ?case by simp
next
  case (Suc i)
  show ?case
  proof (cases "heap_size h \<ge> bytes")
    case False
    with Suc.prems have "cont_blocks_loop h bytes i = Inr (0, h')" by simp
    from Suc.IH [OF this Suc.prems(2)] show ?thesis .
  next
    case True
    with Suc.prems have il: "i < length (maps h)"
      by (simp split: if_splits)
    show ?thesis
    proof (cases "ucast (block_size (maps h ! i)) < bytes")
      case False
      with Suc.prems True il have "cont_blocks_loop h bytes i = Inr (0, h')" by simp
      from Suc.IH [OF this Suc.prems(2)] show ?thesis .
    next
      case small: True
      show ?thesis
      proof (cases "alloc_cont_blocks h i bytes")
        case (Inl e)
        with Suc.prems True il small show ?thesis by simp
      next
        case (Inr res)
        obtain p hb where res: "res = (p, hb)" by (cases res)
        show ?thesis
        proof (cases "p = 0")
          case False
          with Suc.prems True il small Inr res show ?thesis by simp
        next
          case p0: True
          with Inr res have "alloc_cont_blocks h i bytes = Inr (0, hb)" by simp
          from alloc_cont_blocks_null [OF this Suc.prems(2)] have hb: "hb = h" .
          from Suc.prems True il small Inr res p0 hb
          have "cont_blocks_loop h bytes i = Inr (0, h')" by simp
          from Suc.IH [OF this Suc.prems(2)] show ?thesis .
        qed
      qed
    qed
  qed
qed

lemma alloc_heap_buffer_null:
  assumes "alloc_heap_buffer pf h zone bytes = Inr (0, h')" "heap_nonnull h" "alias_nonnull pf"
  shows "h' = h"
proof -
  from assms(1) obtain p ha where s: "single_block_loop h bytes 0 = Inr (p, ha)"
    by (cases "single_block_loop h bytes 0") (auto simp: alloc_heap_buffer_def)
  let ?j = "if sint (blocks ha - 1) < 0 then 0 else Suc (unat (blocks ha - 1))"
  let ?second = "if p = 0 then cont_blocks_loop ha bytes ?j else Inr (p, ha)"
  from assms(1) s obtain q where c: "?second = Inr (q, h')"
    and z: "(if q \<noteq> 0 \<and> zone_uncached pf zone then cache_to_uncache pf q else q) = 0"
    by (cases ?second) (auto simp: alloc_heap_buffer_def)
  from z assms(3) have q0: "q = 0"
    by (auto simp: alias_nonnull_def split: if_splits)
  show ?thesis
  proof (cases "p = 0")
    case True
    with s single_block_loop_null [OF _ assms(2)] have ha: "ha = h" by simp
    from c True q0 ha have "cont_blocks_loop h bytes ?j = Inr (0, h')" by simp
    from cont_blocks_loop_null [OF this assms(2)] show ?thesis .
  next
    case False
    with c q0 show ?thesis by simp
  qed
qed

lemma balloc_loop_null:
  "balloc_loop pf mm zone c bytes i = Inr (0, mm') \<Longrightarrow> nonnull_blocks mm \<Longrightarrow>
   alias_nonnull pf \<Longrightarrow> mm' = mm"
proof (induction pf mm zone c bytes i rule: balloc_loop.induct)
  case (1 pf mm zone c bytes i)
  show ?case
  proof (cases "i < length (buffer mm)")
    case False
    with "1.prems"(1) show ?thesis
      by (subst (asm) balloc_loop.simps) simp
  next
    case True
    show ?thesis
    proof (cases "get_heap_from_caps (buffer mm) i (length (buffer mm) - i) c")
      case (Inl e)
      with "1.prems"(1) True show ?thesis
        by (subst (asm) balloc_loop.simps) simp
    next
      case (Inr res)
      show ?thesis
      proof (cases res)
        case None
        with "1.prems"(1) True Inr show ?thesis
          by (subst (asm) balloc_loop.simps) simp
      next
        case (Some k)
        from heap_from_caps_at_Some [of "buffer mm" i 0 "length (buffer mm) - i" c k] Inr Some
        have v: "valid_ref mm (Buffer k)"
          by (simp add: get_heap_from_caps_def)
        show ?thesis
        proof (cases "alloc_heap_buffer pf (buffer mm ! k) zone bytes")
          case ahl: (Inl e)
          with "1.prems"(1) True Inr Some show ?thesis
            by (subst (asm) balloc_loop.simps) simp
        next
          case ahr: (Inr pr)
          obtain p hb where pr: "pr = (p, hb)" by (cases pr)
          show ?thesis
          proof (cases "p = 0")
            case False
            with "1.prems"(1) True Inr Some ahr pr show ?thesis
              by (subst (asm) balloc_loop.simps) simp
          next
            case p0: True
            with ahr pr have "alloc_heap_buffer pf (heap_at mm (Buffer k)) zone bytes = Inr (0, hb)"
              by simp
            from alloc_heap_buffer_null [OF this nonnull_blocks_at [OF "1.prems"(2) v] "1.prems"(3)]
            have "hb = heap_at mm (Buffer k)" .
            with heap_upd_same [OF v] have same: "heap_upd mm (Buffer k) hb = mm"
              by simp
            from "1.prems"(1) True Inr Some ahr pr p0
            have "balloc_loop pf (heap_upd mm (Buffer k) hb) zone c bytes (Suc k) = Inr (0, mm')"
              by (subst (asm) balloc_loop.simps) simp
            from "1.IH" [OF True Inr Some ahr pr [symmetric] _ this] p0 same "1.prems"(2,3)
            show ?thesis by simp
          qed
        qed
      qed
    qed
  qed
qed

lemma malloc_unlocked_null_block_zone:
  assumes "malloc_unlocked pf mm core zone c bytes = Inr (0, mm')"
    and "nonnull_blocks mm" "alias_nonnull pf"
    and "zone AND rzone_type_mask pf \<noteq> rzone_sys pf"
  shows "mm' = mm\<lparr>heap_trace_updated := 1\<rparr>"
proof -
  let ?t = "zone AND rzone_type_mask pf"
  show ?thesis
  proof (cases "?t = rzone_sys_runtime pf")
    case True
    with assms(1,4) obtain mm1 where r: "rmalloc_sys_runtime pf mm zone c core bytes = Inr (0, mm1)"
      and m: "mm' = mm1\<lparr>heap_trace_updated := 1\<rparr>"
      by (auto simp: malloc_unlocked_def split: sum.splits)
    from rmalloc_sys_runtime_null [OF r assms(2,3)] m show ?thesis by simp
  next
    case nsr: False
    show ?thesis
    proof (cases "?t = rzone_runtime pf")
      case True
      with assms(1,4) nsr obtain mm1 where r: "rmalloc_runtime pf mm zone c bytes = Inr (0, mm1)"
        and m: "mm' = mm1\<lparr>heap_trace_updated := 1\<rparr>"
        by (auto simp: malloc_unlocked_def split: sum.splits)
      from rmalloc_runtime_null [OF r assms(2,3)] m show ?thesis by simp
    next
      case False
      with assms(1,4) nsr show ?thesis
        by (simp add: malloc_unlocked_def)
    qed
  qed
qed

text \<open>
  Claim C8. Let no block address be null. If the allocation inside \<^verbatim>\<open>_realloc\<close>
  (\<^verbatim>\<open>_malloc_unlocked\<close>) or inside \<^verbatim>\<open>_brealloc\<close> (\<^verbatim>\<open>_balloc_unlocked\<close>) returns
  null, then the reallocation returns null, the memory is untouched and \<^verbatim>\<open>rfree\<close> is not
  called: the system-runtime, runtime and buffer heaps, with every header and counter,
  are what they were. For \<^verbatim>\<open>_brealloc\<close> the whole registry is unchanged; for
  \<^verbatim>\<open>_realloc\<close> in a zone other than the system zone only \<open>heap_trace_updated\<close> is set.
  (In the system zone an exhausted heap is a panic, not a null return.)
\<close>

theorem realloc_failure_keeps_old:
  assumes nn: "nonnull_blocks mm" and al: "alias_nonnull pf" and nz: "bytes \<noteq> 0"
  shows "(malloc_unlocked pf mm core zone c bytes = Inr (0, mm') \<longrightarrow>
            realloc pf \<lparr>memmap = mm, ram = rm\<rparr> core ptr zone c bytes
              = Inr (0, \<lparr>memmap = mm', ram = rm\<rparr>)
            \<and> system_runtime mm' = system_runtime mm \<and> runtime mm' = runtime mm
            \<and> buffer mm' = buffer mm
            \<and> (zone AND rzone_type_mask pf \<noteq> rzone_sys pf \<longrightarrow>
                 mm' = mm\<lparr>heap_trace_updated := 1\<rparr>))
       \<and> (balloc_unlocked pf mm zone c bytes = Inr (0, mm') \<longrightarrow>
            mm' = mm
            \<and> brealloc pf \<lparr>memmap = mm, ram = rm\<rparr> core ptr zone c bytes
                = Inr (0, \<lparr>memmap = mm, ram = rm\<rparr>))"
proof (intro conjI impI)
  assume a: "malloc_unlocked pf mm core zone c bytes = Inr (0, mm')"
  with nz show "realloc pf \<lparr>memmap = mm, ram = rm\<rparr> core ptr zone c bytes
              = Inr (0, \<lparr>memmap = mm', ram = rm\<rparr>)"
    by (simp add: realloc_def realloc_with_def)
  from malloc_unlocked_null [OF a nn al]
  show "system_runtime mm' = system_runtime mm" "runtime mm' = runtime mm"
    "buffer mm' = buffer mm"
    by simp_all
  assume "zone AND rzone_type_mask pf \<noteq> rzone_sys pf"
  from malloc_unlocked_null_block_zone [OF a nn al this]
  show "mm' = mm\<lparr>heap_trace_updated := 1\<rparr>" .
next
  assume b: "balloc_unlocked pf mm zone c bytes = Inr (0, mm')"
  then have "balloc_loop pf mm zone c bytes 0 = Inr (0, mm')"
    by (simp add: balloc_unlocked_def)
  from balloc_loop_null [OF this nn al] show same: "mm' = mm" .
  from b same nz show "brealloc pf \<lparr>memmap = mm, ram = rm\<rparr> core ptr zone c bytes
                = Inr (0, \<lparr>memmap = mm, ram = rm\<rparr>)"
    by (simp add: brealloc_def realloc_with_def)
qed

theorem realloc_failure_keeps_old_witness:
  "realloc pf0 \<lparr>memmap = mm_taken, ram = (\<lambda>a. 7)\<rparr> 0 0x3000 (rzone_runtime pf0) 0 100
     = Inr (0, \<lparr>memmap = mm_taken\<lparr>heap_trace_updated := 1\<rparr>, ram = (\<lambda>a. 7)\<rparr>)
   \<and> brealloc pf0 \<lparr>memmap = mm_taken, ram = (\<lambda>a. 7)\<rparr> 0 0x3000 0 0 100
     = Inr (0, \<lparr>memmap = mm_taken, ram = (\<lambda>a. 7)\<rparr>)
   \<and> hdr_used (block (maps (buffer mm_taken ! 0) ! 0) ! 0) = 1"
proof -
  have nn: "nonnull_blocks mm_taken"
    by code_simp
  have al: "alias_nonnull pf0"
    by (simp add: alias_nonnull_def pf0_def or_eq_0_iff)
  have nz: "(100 :: 32 word) \<noteq> 0"
    by simp
  have m: "malloc_unlocked pf0 mm_taken 0 (rzone_runtime pf0) 0 100
      = Inr (0, mm_taken\<lparr>heap_trace_updated := 1\<rparr>)"
    by code_simp
  have b: "balloc_unlocked pf0 mm_taken 0 0 100 = Inr (0, mm_taken)"
    by code_simp
  have u: "hdr_used (block (maps (buffer mm_taken ! 0) ! 0) ! 0) = 1"
    by code_simp
  note t = realloc_failure_keeps_old [OF nn al nz, of 0 "rzone_runtime pf0" 0
      "mm_taken\<lparr>heap_trace_updated := 1\<rparr>" "\<lambda>a. 7" "0x3000"]
  note t' = realloc_failure_keeps_old [OF nn al nz, of 0 0 0 mm_taken "\<lambda>a. 7" "0x3000"]
  from t m have p1: "realloc pf0 \<lparr>memmap = mm_taken, ram = (\<lambda>a. 7)\<rparr> 0 0x3000 (rzone_runtime pf0) 0 100
     = Inr (0, \<lparr>memmap = mm_taken\<lparr>heap_trace_updated := 1\<rparr>, ram = (\<lambda>a. 7)\<rparr>)"
    by blast
  from t' b have p2: "brealloc pf0 \<lparr>memmap = mm_taken, ram = (\<lambda>a. 7)\<rparr> 0 0x3000 0 0 100
     = Inr (0, \<lparr>memmap = mm_taken, ram = (\<lambda>a. 7)\<rparr>)"
    by blast
  from p1 p2 u show ?thesis by blast
qed

end
